theory Spec2Isabelle
  imports Main "HOL-Library.Sublist"
begin

section \<open>Test items and run requests\<close>

text \<open>
  A \<open>vscode.TestItem\<close> has an \<open>id\<close>, a \<open>label\<close>, a \<open>parent\<close> back-reference and a
  collection of \<open>children\<close>. The back-reference is only ever followed upwards
  (\<open>test.parent\<close>, \<open>test.parent.parent\<close>, \<open>item.parent?.parent.label\<close>), so the parent of an
  item is kept as its chain of ancestors. JavaScript compares items by reference
  (\<open>exclude.includes(test)\<close>); here two items are the same when id, label, ancestors and
  subtree agree, which is the same thing in a tree whose collections hold one item per id.
\<close>

datatype Ancestor = Ancestor (a_id: string) (a_label: string) (a_parent: "Ancestor option")

datatype TestItem =
  TestItem (id_str: string) (label: string) (parent: "Ancestor option") (children: "TestItem list")

text \<open>\<open>request.include\<close> and \<open>request.exclude\<close> may be \<open>undefined\<close>.\<close>

record TestRunRequest =
  include_req :: "TestItem list option"
  exclude_req :: "TestItem list option"

text \<open>\<open>this.request.exclude?.includes(test)\<close>: \<open>undefined\<close> is falsy.\<close>

definition exclude_includes :: "TestItem list option \<Rightarrow> TestItem \<Rightarrow> bool" where
  "exclude_includes ex test = (case ex of None \<Rightarrow> False | Some xs \<Rightarrow> test \<in> set xs)"

text \<open>\<open>this.request.exclude?.find(item => item.id.startsWith(test.id))\<close>, as a truth value.\<close>

definition exclude_find_startsWith :: "TestItem list option \<Rightarrow> TestItem \<Rightarrow> bool" where
  "exclude_find_startsWith ex test =
     (case ex of None \<Rightarrow> False
      | Some xs \<Rightarrow> list_ex (\<lambda>item. prefix (id_str test) (id_str item)) xs)"

text \<open>\<open>test.parent && !test.parent?.parent\<close>: the item of a TestCase class has one ancestor.\<close>

definition is_test_case :: "TestItem \<Rightarrow> bool" where
  "is_test_case test =
     (case parent test of None \<Rightarrow> False | Some p \<Rightarrow> a_parent p = None)"

text \<open>\<open>xs && xs.length > 0\<close>\<close>

definition non_empty :: "'a list option \<Rightarrow> bool" where
  "non_empty xs = (case xs of None \<Rightarrow> False | Some ys \<Rightarrow> ys \<noteq> [])"

section \<open>createTestLists\<close>

text \<open>
  The state of the first \<open>while\<close> loop: the work queue (\<open>pop\<close> takes its last element,
  \<open>push\<close> appends), the result list and the second queue.
\<close>

type_synonym lists_state = "TestItem list \<times> TestItem list \<times> TestItem list"

text \<open>One iteration of the first loop, for a non-empty queue.\<close>

definition queue_step :: "TestItem list option \<Rightarrow> lists_state \<Rightarrow> lists_state" where
  "queue_step ex st =
     (case st of (queue, list, queue2) \<Rightarrow>
        let test = last queue; queue = butlast queue in
        if exclude_includes ex test then (queue, list, queue2)
        else if is_test_case test \<and> \<not> exclude_find_startsWith ex test
          then (queue, list @ [test], queue2 @ children test)
        else if children test \<noteq> [] then (queue @ children test, list, queue2)
        else (queue, list @ [test], queue2))"

fun nodes :: "TestItem \<Rightarrow> nat" where
  "nodes (TestItem i l p cs) = Suc (sum_list (map nodes cs))"

definition queue_weight :: "lists_state \<Rightarrow> nat" where
  "queue_weight st = sum_list (map nodes (fst st))"

function queue_loop :: "TestItem list option \<Rightarrow> lists_state \<Rightarrow> lists_state" where
  "queue_loop ex st = (if fst st = [] then st else queue_loop ex (queue_step ex st))"
  by pat_completeness auto
termination
proof (relation "measure (\<lambda>(ex, st). queue_weight st)")
  show "wf (measure (\<lambda>(ex, st). queue_weight st))" by simp
next
  fix ex :: "TestItem list option" and st :: lists_state
  assume ne: "fst st \<noteq> []"
  obtain queue list queue2 where st: "st = (queue, list, queue2)"
    by (cases st)
  from ne st obtain q t where q: "queue = q @ [t]"
    by (metis append_butlast_last_id fst_conv)
  have "sum_list (map nodes (children t)) < nodes t"
    by (cases t) simp
  then show "((ex, queue_step ex st), (ex, st)) \<in> measure (\<lambda>(ex, st). queue_weight st)"
    by (simp add: st q queue_step_def queue_weight_def Let_def)
qed

declare queue_loop.simps [simp del]

text \<open>The second loop: pop from \<open>queue2\<close>, skip what is excluded, push the rest.\<close>

function queue2_loop :: "TestItem list option \<Rightarrow> TestItem list \<Rightarrow> TestItem list \<Rightarrow> TestItem list" where
  "queue2_loop ex queue2 list =
     (if queue2 = [] then list
      else let test = last queue2; queue2 = butlast queue2 in
        if exclude_includes ex test then queue2_loop ex queue2 list
        else queue2_loop ex queue2 (list @ [test]))"
  by pat_completeness auto
termination
  by (relation "measure (\<lambda>(ex, queue2, list). length queue2)") auto

declare queue2_loop.simps [simp del]

record TestLists =
  testItems :: "TestItem list"
  testArgs :: "string list"

text \<open>
  The queue the first loop starts from: the included tests, or all known tests.
  \<open>items\<close> are the controller's top-level items (\<open>this.controller.items\<close>).
\<close>

definition initial_queue :: "TestItem list \<Rightarrow> TestRunRequest \<Rightarrow> TestItem list" where
  "initial_queue items request =
     (case include_req request of
        Some inc \<Rightarrow> if inc \<noteq> [] then inc else items
      | None \<Rightarrow> items)"

definition createTestLists :: "TestItem list \<Rightarrow> TestRunRequest \<Rightarrow> TestLists" where
  "createTestLists items request =
     (let queue = initial_queue items request;
          (queue, list, queue2) = queue_loop (exclude_req request) (queue, [], []);
          argumentList =
            (if non_empty (include_req request) \<or> non_empty (exclude_req request)
             then map id_str list else []);
          list = queue2_loop (exclude_req request) queue2 list
      in \<lparr>testItems = list, testArgs = argumentList\<rparr>)"

section \<open>Text\<close>

text \<open>
  Strings are lists of 8-bit characters. Of JavaScript's white space and line
  terminators, these are the ones in that range; \<open>\s\<close>, \<open>\S\<close> and \<open>trim\<close> use the first,
  \<open>.\<close> excludes the second.
\<close>

definition isSpace :: "char \<Rightarrow> bool" where
  "isSpace c = (c \<in> set [CHR 0x09, CHR 0x0A, CHR 0x0B, CHR 0x0C, CHR 0x0D, CHR 0x20, CHR 0xA0])"

definition isLineTerminator :: "char \<Rightarrow> bool" where
  "isLineTerminator c = (c = CHR 0x0A \<or> c = CHR 0x0D)"

definition isDigit :: "char \<Rightarrow> bool" where
  "isDigit c = (c \<in> set ''0123456789'')"

text \<open>\<open>item.trim()\<close>\<close>

definition trim :: "string \<Rightarrow> string" where
  "trim s = rev (dropWhile isSpace (rev (dropWhile isSpace s)))"

text \<open>\<open>output.split("\n")\<close>: always at least one piece.\<close>

fun split_newline :: "string \<Rightarrow> string list" where
  "split_newline [] = [[]]"
| "split_newline (c # s) =
     (case split_newline s of
        [] \<Rightarrow> [[c]]
      | piece # pieces \<Rightarrow>
          if c = CHR 0x0A then [] # piece # pieces else (c # piece) # pieces)"

text \<open>\<open>text.replace(/\n/g, "\r\n")\<close>\<close>

definition replace_newline :: "string \<Rightarrow> string" where
  "replace_newline s = concat (map (\<lambda>c. if c = CHR 0x0A then [CHR 0x0D, CHR 0x0A] else [c]) s)"

definition nat_of_digits :: "string \<Rightarrow> nat" where
  "nat_of_digits ds = foldl (\<lambda>n c. 10 * n + (of_char c - 48)) 0 ds"

text \<open>
  \<open>parseInt(s)\<close>: leading white space, a sign, then the longest run of decimal digits;
  \<open>None\<close> is \<open>NaN\<close>. The values are exact integers (a JavaScript number is exact up to
  \<open>2^53\<close>). The captured groups this is applied to consist of digits only.
\<close>

definition parseInt :: "string \<Rightarrow> int option" where
  "parseInt s =
     (let t = dropWhile isSpace s;
          neg = (t \<noteq> [] \<and> hd t = CHR ''-'');
          u = (if t \<noteq> [] \<and> (hd t = CHR ''-'' \<or> hd t = CHR ''+'') then tl t else t);
          ds = takeWhile isDigit u
      in if ds = [] then None
         else Some ((if neg then - 1 else 1) * int (nat_of_digits ds)))"

text \<open>
  The JavaScript numbers that the parser meets are durations: \<open>NaN\<close>, or a decimal
  fraction \<open>m / 10^e\<close>, kept as \<open>Decimal m e\<close> with the smallest \<open>e\<close>. The value is exact,
  not its nearest double.
\<close>

datatype number = NaN | Decimal int nat

fun decimal :: "int \<Rightarrow> nat \<Rightarrow> number" where
  "decimal m 0 = Decimal m 0"
| "decimal m (Suc e) = (if m mod 10 = 0 then decimal (m div 10) e else Decimal m (Suc e))"

text \<open>\<open>x * k\<close> for an integer \<open>k\<close>.\<close>

definition number_times :: "number \<Rightarrow> int \<Rightarrow> number" where
  "number_times x k = (case x of NaN \<Rightarrow> NaN | Decimal m e \<Rightarrow> decimal (m * k) e)"

text \<open>
  Unary plus on a string (\<open>+passedMatch[3]\<close>), for the numerals XCTest prints: decimal
  digits with an optional fraction, white space around them ignored, the empty string
  read as zero. JavaScript also reads exponents and the prefixes \<open>0x\<close>, \<open>0o\<close>, \<open>0b\<close>, which
  are \<open>NaN\<close> here.
\<close>

definition toNumber :: "string \<Rightarrow> number" where
  "toNumber s =
     (let t = trim s;
          ip = takeWhile isDigit t;
          r = dropWhile isDigit t;
          fp = (if r \<noteq> [] \<and> hd r = CHR ''.'' then tl r else [])
      in if t = [] then Decimal 0 0
         else if (r = [] \<or> hd r = CHR ''.'') \<and> list_all isDigit fp \<and> (ip \<noteq> [] \<or> fp \<noteq> [])
           then decimal (int (nat_of_digits (ip @ fp))) (length fp)
         else NaN)"

section \<open>Regular expressions\<close>

text \<open>
  The patterns of the parser use literal characters, the classes \<open>.\<close>, \<open>\d\<close>, \<open>\s\<close>, \<open>\S\<close>,
  the greedy repetitions \<open>*\<close> and \<open>+\<close> of a single class, capture groups that do not nest,
  and \<open>$\<close>. All of them start with \<open>^\<close>, so a match starts at the first character.
  \<open>rmatch\<close> is the backtracking matcher: a repetition takes as many characters as it can
  and gives them back one at a time. It returns the captured groups and the text left
  after the match.
\<close>

datatype cls = Lit char | Dot | Digit | Space | NonSpace

datatype rx = One cls | Star cls | Plus cls | Open | Close | Eol

fun cmatch :: "cls \<Rightarrow> char \<Rightarrow> bool" where
  "cmatch (Lit a) c = (c = a)"
| "cmatch Dot c = (\<not> isLineTerminator c)"
| "cmatch Digit c = isDigit c"
| "cmatch Space c = isSpace c"
| "cmatch NonSpace c = (\<not> isSpace c)"

text \<open>A character that is consumed while a group is open belongs to the group.\<close>

definition push :: "char \<Rightarrow> string option \<Rightarrow> string option" where
  "push c cur = map_option (\<lambda>g. g @ [c]) cur"

fun rmatch ::
  "rx list \<Rightarrow> string \<Rightarrow> string list \<Rightarrow> string option \<Rightarrow> (string list \<times> string) option" where
  "rmatch [] s done cur = Some (done, s)"
| "rmatch (Open # p) s done cur = rmatch p s done (Some [])"
| "rmatch (Close # p) s done cur =
     rmatch p s (done @ [case cur of Some g \<Rightarrow> g | None \<Rightarrow> []]) None"
| "rmatch (Eol # p) s done cur = (if s = [] then rmatch p s done cur else None)"
| "rmatch (One c # p) [] done cur = None"
| "rmatch (One c # p) (x # s) done cur =
     (if cmatch c x then rmatch p s done (push x cur) else None)"
| "rmatch (Plus c # p) [] done cur = None"
| "rmatch (Plus c # p) (x # s) done cur =
     (if cmatch c x then rmatch (Star c # p) s done (push x cur) else None)"
| "rmatch (Star c # p) [] done cur = rmatch p [] done cur"
| "rmatch (Star c # p) (x # s) done cur =
     (if cmatch c x
      then (case rmatch (Star c # p) s done (push x cur) of
              Some r \<Rightarrow> Some r
            | None \<Rightarrow> rmatch p (x # s) done cur)
      else rmatch p (x # s) done cur)"

text \<open>
  \<open>regex.exec(line)\<close>: \<open>None\<close> is \<open>null\<close>; otherwise the matched text at index 0 and the
  groups from index 1 on.
\<close>

definition exec :: "rx list \<Rightarrow> string \<Rightarrow> string list option" where
  "exec p s =
     (case rmatch p s [] None of
        None \<Rightarrow> None
      | Some (groups, rest) \<Rightarrow> Some (take (length s - length rest) s # groups))"

definition lit :: "string \<Rightarrow> rx list" where
  "lit s = map (\<lambda>c. One (Lit c)) s"

text \<open>The single quote.\<close>

definition quote :: string where
  "quote = [CHR 0x27]"

text \<open>\<open>/^Test Case '-\[(\S+)\s(.*)\]' started./\<close>\<close>

definition darwin_startedMatch :: "rx list" where
  "darwin_startedMatch =
     lit (''Test Case '' @ quote @ ''-['') @ [Open, Plus NonSpace, Close, One Space,
       Open, Star Dot, Close] @ lit ('']'' @ quote @ '' started'') @ [One Dot]"

text \<open>\<open>/^Test Case '-\[(\S+)\s(.*)\]' passed \((\d.*) seconds\)/\<close>\<close>

definition darwin_passedMatch :: "rx list" where
  "darwin_passedMatch =
     lit (''Test Case '' @ quote @ ''-['') @ [Open, Plus NonSpace, Close, One Space,
       Open, Star Dot, Close] @ lit ('']'' @ quote @ '' passed ('')
     @ [Open, One Digit, Star Dot, Close] @ lit '' seconds)''"

text \<open>\<open>/^(.+):(\d+):\serror:\s-\[(\S+)\s(.*)\] : (.*)$/\<close>\<close>

definition darwin_failedMatch :: "rx list" where
  "darwin_failedMatch =
     [Open, Plus Dot, Close] @ lit '':'' @ [Open, Plus Digit, Close] @ lit '':''
     @ [One Space] @ lit ''error:'' @ [One Space] @ lit ''-[''
     @ [Open, Plus NonSpace, Close, One Space, Open, Star Dot, Close] @ lit ''] : ''
     @ [Open, Star Dot, Close, Eol]"

text \<open>\<open>/^(.+):(\d+):\s-\[(\S+)\s(.*)\] : Test skipped/\<close>\<close>

definition darwin_skippedMatch :: "rx list" where
  "darwin_skippedMatch =
     [Open, Plus Dot, Close] @ lit '':'' @ [Open, Plus Digit, Close] @ lit '':''
     @ [One Space] @ lit ''-[''
     @ [Open, Plus NonSpace, Close, One Space, Open, Star Dot, Close]
     @ lit ''] : Test skipped''"

text \<open>\<open>/^Test Case '(.*)\.(.*)' started/\<close>\<close>

definition startedMatch :: "rx list" where
  "startedMatch =
     lit (''Test Case '' @ quote) @ [Open, Star Dot, Close] @ lit ''.''
     @ [Open, Star Dot, Close] @ lit (quote @ '' started'')"

text \<open>\<open>/^(.+):(\d+):\serror:\s*(.*)\.(.*) : (.*)/\<close>\<close>

definition failedMatch :: "rx list" where
  "failedMatch =
     [Open, Plus Dot, Close] @ lit '':'' @ [Open, Plus Digit, Close] @ lit '':''
     @ [One Space] @ lit ''error:'' @ [Star Space, Open, Star Dot, Close] @ lit ''.''
     @ [Open, Star Dot, Close] @ lit '' : '' @ [Open, Star Dot, Close]"

text \<open>\<open>/^(.+):(\d+):\s*(.*)\.(.*) : Test skipped:/\<close>\<close>

definition skippedMatch :: "rx list" where
  "skippedMatch =
     [Open, Plus Dot, Close] @ lit '':'' @ [Open, Plus Digit, Close] @ lit '':''
     @ [Star Space, Open, Star Dot, Close] @ lit ''.''
     @ [Open, Star Dot, Close] @ lit '' : Test skipped:''"

text \<open>\<open>/^Test Case '(.*)\.(.*)' passed \((\d.*) seconds\)/\<close>\<close>

definition passedMatch :: "rx list" where
  "passedMatch =
     lit (''Test Case '' @ quote) @ [Open, Star Dot, Close] @ lit ''.''
     @ [Open, Star Dot, Close] @ lit (quote @ '' passed ('')
     @ [Open, One Digit, Star Dot, Close] @ lit '' seconds)''"

section \<open>Paths\<close>

text \<open>
  \<open>path.join\<close> and \<open>path.relative\<close> of Node.js for POSIX paths, on the segments between
  slashes. \<open>cwd\<close> is the working directory that \<open>path.relative\<close> resolves a relative path
  against.
\<close>

fun split_slash :: "string \<Rightarrow> string list" where
  "split_slash [] = [[]]"
| "split_slash (c # s) =
     (case split_slash s of
        [] \<Rightarrow> [[c]]
      | piece # pieces \<Rightarrow>
          if c = CHR ''/'' then [] # piece # pieces else (c # piece) # pieces)"

fun join_slash :: "string list \<Rightarrow> string" where
  "join_slash [] = []"
| "join_slash [x] = x"
| "join_slash (x # y # ys) = x @ ''/'' @ join_slash (y # ys)"

definition normalize_step :: "bool \<Rightarrow> string list \<Rightarrow> string \<Rightarrow> string list" where
  "normalize_step absolute acc seg =
     (if seg = [] \<or> seg = ''.'' then acc
      else if seg = ''..''
        then (if acc \<noteq> [] \<and> last acc \<noteq> ''..'' then butlast acc
              else if absolute then acc else acc @ [seg])
      else acc @ [seg])"

definition normalize_segments :: "bool \<Rightarrow> string \<Rightarrow> string list" where
  "normalize_segments absolute p = foldl (normalize_step absolute) [] (split_slash p)"

definition isAbsolute :: "string \<Rightarrow> bool" where
  "isAbsolute p = (p \<noteq> [] \<and> hd p = CHR ''/'')"

definition normalize :: "string \<Rightarrow> string" where
  "normalize p =
     (if p = [] then ''.''
      else let body = join_slash (normalize_segments (isAbsolute p) p);
               body = (if body = [] \<and> \<not> isAbsolute p then ''.'' else body);
               body = (if body \<noteq> [] \<and> last p = CHR ''/'' then body @ ''/'' else body)
           in if isAbsolute p then ''/'' @ body else body)"

definition path_join :: "string \<Rightarrow> string \<Rightarrow> string" where
  "path_join a b =
     (let joined = (if a = [] then b else if b = [] then a else a @ ''/'' @ b)
      in if joined = [] then ''.'' else normalize joined)"

text \<open>The segments of \<open>path.resolve(p)\<close>, which is an absolute path.\<close>

definition resolve_segments :: "string \<Rightarrow> string \<Rightarrow> string list" where
  "resolve_segments cwd p =
     (if isAbsolute p then normalize_segments True p
      else normalize_segments True (cwd @ ''/'' @ p))"

fun common_prefix_length :: "string list \<Rightarrow> string list \<Rightarrow> nat" where
  "common_prefix_length (x # xs) (y # ys) =
     (if x = y then Suc (common_prefix_length xs ys) else 0)"
| "common_prefix_length xs ys = 0"

definition path_relative :: "string \<Rightarrow> string \<Rightarrow> string \<Rightarrow> string" where
  "path_relative cwd from to =
     (let fs = resolve_segments cwd from;
          ts = resolve_segments cwd to;
          n = common_prefix_length fs ts
      in join_slash (replicate (length fs - n) ''..'' @ drop n ts))"

section \<open>The test runner\<close>

text \<open>
  What a \<open>throw\<close> or a rejected promise carries, as far as the \<open>catch\<close> block of
  \<open>runHandler\<close> looks at it: \<open>undefined\<close> (\<open>reject()\<close> without a reason; any falsy value
  behaves the same), or a value with its \<open>error\<close> field. The field is absent or falsy
  (\<open>None\<close>), or has a \<open>message\<close> that is a string (an \<open>ExecError\<close>, whose \<open>error\<close> is an
  \<open>Error\<close>), or has no such \<open>message\<close> (\<open>message\<close> is \<open>undefined\<close>, say, or a number). The
  string tells thrown values apart.
\<close>

datatype error_field = Message string | NoMessage

datatype thrown = Undefined | Thrown string "error_field option"


definition illegalArgument :: "string \<Rightarrow> thrown" where
  "illegalArgument name = Thrown (''Error: Illegal argument: '' @ name) None"

text \<open>
  The calls on \<open>this.testRun\<close> are kept as a log, in the order they are made.
  The row of a position is what \<open>parseInt\<close> gave, or that minus one.
\<close>

datatype Position = Position "int option" int

text \<open>
  \<open>new vscode.Position(line, character)\<close>: the constructor of the host throws when the
  line or the character is negative (\<open>NaN < 0\<close> is false). The file of a location is the
  file name that \<open>vscode.Uri.file\<close> is given; \<open>Uri.file\<close> is taken to return, as it does for
  every file name that does not start with four slashes.
\<close>

definition new_Position :: "int option \<Rightarrow> int \<Rightarrow> thrown + Position" where
  "new_Position line character =
     (if (case line of Some n \<Rightarrow> n < 0 | None \<Rightarrow> False)
      then Inl (illegalArgument ''line must be non-negative'')
      else if character < 0 then Inl (illegalArgument ''character must be non-negative'')
      else Inr (Position line character))"

datatype Location = Location string Position

datatype TestMessage = TestMessage string "Location option"

datatype TestRunCall =
  Enqueued TestItem
  | Started TestItem
  | Passed TestItem number
  | Failed TestItem TestMessage
  | Errored TestItem TestMessage
  | Skipped TestItem
  | AppendOutput string
  | End

text \<open>The fields of the class that the parser reads and writes.\<close>

record TestRunner = TestLists +
  currentTestItem :: "TestItem option"
  testRun :: "TestRunCall list"

text \<open>A target of the package (\<open>folderContext.swiftPackage.targets\<close>).\<close>

record Target =
  name :: string
  path :: string
  sources :: "string list"

record FolderContext =
  folder :: string
  targets :: "Target list"
  cwd :: string

text \<open>\<open>xs.findIndex(p)\<close>: \<open>None\<close> is \<open>-1\<close>.\<close>

fun findIndex :: "('a \<Rightarrow> bool) \<Rightarrow> 'a list \<Rightarrow> nat option" where
  "findIndex P [] = None"
| "findIndex P (x # xs) = (if P x then Some 0 else map_option Suc (findIndex P xs))"

text \<open>\<open>xs.splice(i, 1)\<close>\<close>

definition splice :: "nat \<Rightarrow> 'a list \<Rightarrow> 'a list" where
  "splice i xs = take i xs @ drop (Suc i) xs"

text \<open>A call on \<open>this.testRun\<close>.\<close>

definition call :: "TestRunCall \<Rightarrow> TestRunner \<Rightarrow> TestRunner" where
  "call c r = r\<lparr>testRun := testRun r @ [c]\<rparr>"

subsection \<open>parseResultDarwin\<close>

text \<open>
  The body of the loop over the lines: the runner as the iteration leaves it, and what it
  throws, if anything. The only statement of the body that can throw is the construction
  of the position of a failure, before anything is reported or changed.
\<close>

definition darwin_line :: "string \<Rightarrow> TestRunner \<Rightarrow> TestRunner \<times> thrown option" where
  "darwin_line line r =
     (case exec darwin_startedMatch line of
        Some m \<Rightarrow>
          (let testId = m ! 1 @ ''/'' @ m ! 2 in
           case findIndex (\<lambda>item. id_str item = testId) (testItems r) of
             Some i \<Rightarrow>
               ((call (Started (testItems r ! i)) r)\<lparr>currentTestItem := Some (testItems r ! i)\<rparr>,
                None)
           | None \<Rightarrow> (r, None))
      | None \<Rightarrow>
     (case exec darwin_passedMatch line of
        Some m \<Rightarrow>
          (let testId = m ! 1 @ ''/'' @ m ! 2;
               duration = toNumber (m ! 3)
           in ((case findIndex (\<lambda>item. id_str item = testId) (testItems r) of
                  Some i \<Rightarrow>
                    (call (Passed (testItems r ! i) (number_times duration 1000)) r)
                      \<lparr>testItems := splice i (testItems r)\<rparr>
                | None \<Rightarrow> r)\<lparr>currentTestItem := None\<rparr>,
               None))
      | None \<Rightarrow>
     (case exec darwin_failedMatch line of
        Some m \<Rightarrow>
          (let testId = m ! 3 @ ''/'' @ m ! 4
           in case findIndex (\<lambda>item. id_str item = testId) (testItems r) of
                Some i \<Rightarrow>
                  (case new_Position (map_option (\<lambda>n. n - 1) (parseInt (m ! 2))) 0 of
                     Inl error \<Rightarrow> (r, Some error)
                   | Inr position \<Rightarrow>
                       ((call (Failed (testItems r ! i)
                           (TestMessage (m ! 5) (Some (Location (m ! 1) position)))) r)
                          \<lparr>testItems := splice i (testItems r), currentTestItem := None\<rparr>,
                        None))
              | None \<Rightarrow> (r\<lparr>currentTestItem := None\<rparr>, None))
      | None \<Rightarrow>
     (case exec darwin_skippedMatch line of
        Some m \<Rightarrow>
          (let testId = m ! 3 @ ''/'' @ m ! 4
           in ((case findIndex (\<lambda>item. id_str item = testId) (testItems r) of
                  Some i \<Rightarrow>
                    (call (Skipped (testItems r ! i)) r)\<lparr>testItems := splice i (testItems r)\<rparr>
                | None \<Rightarrow> r)\<lparr>currentTestItem := None\<rparr>,
               None))
      | None \<Rightarrow> (r, None)))))"

text \<open>A loop \<open>for (const x of xs)\<close> whose body may throw: the first throw leaves the loop.\<close>

fun for_of ::
  "('a \<Rightarrow> TestRunner \<Rightarrow> TestRunner \<times> thrown option) \<Rightarrow> 'a list \<Rightarrow> TestRunner
     \<Rightarrow> TestRunner \<times> thrown option" where
  "for_of body [] r = (r, None)"
| "for_of body (x # xs) r =
     (case body x r of
        (r', None) \<Rightarrow> for_of body xs r'
      | (r', Some error) \<Rightarrow> (r', Some error))"

definition parseResultDarwin :: "string \<Rightarrow> TestRunner \<Rightarrow> TestRunner \<times> thrown option" where
  "parseResultDarwin output r = for_of darwin_line (map trim (split_newline output)) r"

subsection \<open>parseResultNonDarwin\<close>

definition isTestWithFilenameInTarget ::
  "FolderContext \<Rightarrow> string \<Rightarrow> string \<Rightarrow> TestItem \<Rightarrow> bool" where
  "isTestWithFilenameInTarget ctx testName filename item =
     (if \<not> suffix testName (id_str item) then False
      else case parent item of
        None \<Rightarrow> False
      | Some p \<Rightarrow>
         (case a_parent p of
            None \<Rightarrow> False
          | Some targetTestItem \<Rightarrow>
             (case find (\<lambda>t. a_label targetTestItem = name t) (targets ctx) of
                Some target \<Rightarrow>
                  (let targetPath = path_join (folder ctx) (path target);
                       relativePath = path_relative (cwd ctx) targetPath filename
                   in find (\<lambda>source. source = relativePath) (sources target) \<noteq> None)
              | None \<Rightarrow> False)))"

text \<open>
  The index of the failed or skipped test: by file name and target first, by class and
  function name if that finds nothing.
\<close>

definition findIndex_in_target ::
  "FolderContext \<Rightarrow> string \<Rightarrow> string \<Rightarrow> TestItem list \<Rightarrow> nat option" where
  "findIndex_in_target ctx testName filename items =
     (case findIndex (isTestWithFilenameInTarget ctx testName filename) items of
        Some i \<Rightarrow> Some i
      | None \<Rightarrow> findIndex (\<lambda>item. suffix testName (id_str item)) items)"

text \<open>The body of the first loop over the lines: started, failed and skipped tests.\<close>

definition nonDarwin_line :: "FolderContext \<Rightarrow> string \<Rightarrow> TestRunner \<Rightarrow> TestRunner" where
  "nonDarwin_line ctx line r =
     (case exec startedMatch line of
        Some m \<Rightarrow>
          (let testName = m ! 1 @ ''/'' @ m ! 2 in
           case findIndex (\<lambda>item. suffix testName (id_str item)) (testItems r) of
             Some i \<Rightarrow>
               (call (Started (testItems r ! i)) r)\<lparr>currentTestItem := Some (testItems r ! i)\<rparr>
           | None \<Rightarrow> r)
      | None \<Rightarrow>
     (case exec failedMatch line of
        Some m \<Rightarrow>
          (let testName = m ! 3 @ ''/'' @ m ! 4
           in (case findIndex_in_target ctx testName (m ! 1) (testItems r) of
                 Some i \<Rightarrow>
                   (call (Failed (testItems r ! i)
                      (TestMessage (m ! 5)
                         (Some (Location (m ! 1) (Position (parseInt (m ! 2)) 0))))) r)
                     \<lparr>testItems := splice i (testItems r)\<rparr>
               | None \<Rightarrow> r)\<lparr>currentTestItem := None\<rparr>)
      | None \<Rightarrow>
     (case exec skippedMatch line of
        Some m \<Rightarrow>
          (let testName = m ! 3 @ ''/'' @ m ! 4
           in (case findIndex_in_target ctx testName (m ! 1) (testItems r) of
                 Some i \<Rightarrow>
                   (call (Skipped (testItems r ! i)) r)\<lparr>testItems := splice i (testItems r)\<rparr>
               | None \<Rightarrow> r)\<lparr>currentTestItem := None\<rparr>)
      | None \<Rightarrow> r)))"

text \<open>The body of the second loop over the lines: passed tests.\<close>

definition nonDarwin_passed_line :: "string \<Rightarrow> TestRunner \<Rightarrow> TestRunner" where
  "nonDarwin_passed_line line r =
     (case exec passedMatch line of
        Some m \<Rightarrow>
          (let testName = m ! 1 @ ''/'' @ m ! 2;
               duration = toNumber (m ! 3)
           in (case findIndex (\<lambda>item. suffix testName (id_str item)) (testItems r) of
                 Some i \<Rightarrow>
                   (call (Passed (testItems r ! i) duration) r)
                     \<lparr>testItems := splice i (testItems r)\<rparr>
               | None \<Rightarrow> r)\<lparr>currentTestItem := None\<rparr>)
      | None \<Rightarrow> r)"

definition parseResultNonDarwin :: "FolderContext \<Rightarrow> string \<Rightarrow> TestRunner \<Rightarrow> TestRunner" where
  "parseResultNonDarwin ctx output r =
     (let lines = map trim (split_newline output)
      in fold nonDarwin_passed_line lines (fold (nonDarwin_line ctx) lines r))"

section \<open>runHandler\<close>

text \<open>How an awaited operation ends.\<close>

datatype 'a outcome = Returns 'a | Throws thrown

datatype platform = Darwin | Other

text \<open>
  What the world outside the runner does during one run: the build
  (\<open>getBuildAllTask\<close> and \<open>taskQueue.queueOperation\<close>, the exit code \<open>None\<close> being
  \<open>undefined\<close>), whether a launch configuration could be made, whether the token is
  cancelled when it is read, the chunks that the test process writes and how
  \<open>execFileStreamOutput\<close> ends, how \<open>vscode.debug.startDebugging\<close> ends, and what reading
  the debug output file gives (\<open>None\<close>: reading fails). Every awaited operation is taken to
  complete; a started debug session is taken to terminate. \<open>getErrorDescription\<close> is the
  function of the utilities module, taken to return a string for every value; \<open>now\<close> is
  \<open>new Date().toLocaleString()\<close>.
\<close>

record Environment =
  process_platform :: platform
  folderContext :: FolderContext
  now :: string
  getErrorDescription :: "thrown \<Rightarrow> string"
  build :: "int option outcome"
  launchConfiguration :: bool
  isCancellationRequested :: bool
  chunks :: "string list"
  execFileStreamOutput :: "thrown option"
  startDebugging :: "bool outcome"
  readFile :: "string option"


definition started_banner :: "Environment \<Rightarrow> string" where
  "started_banner env = ''> Test run started at '' @ now env @ '' <'' @ [CHR 0x0D, CHR 0x0A, CHR 0x0D, CHR 0x0A]"

text \<open>
  Echo a piece of output to the test run and parse it. The line number of a failure in
  the output of Linux is never negative (\<open>parseInt\<close> of a group of digits), so the
  constructor of its position returns; the parser for macOS, which subtracts one, can
  throw.
\<close>

definition write_output ::
  "Environment \<Rightarrow> string \<Rightarrow> TestRunner \<Rightarrow> TestRunner \<times> thrown option" where
  "write_output env text r =
     (let r = call (AppendOutput (replace_newline text)) r
      in if process_platform env = Darwin then parseResultDarwin text r
         else (parseResultNonDarwin (folderContext env) text r, None))"

text \<open>
  \<open>runSession\<close> and \<open>debugSession\<close> give the runner as they leave it, and what they throw,
  if anything.

  In \<open>runSession\<close> the output is parsed in the \<open>write\<close> callback of a stream, which
  \<open>execFileStreamOutput\<close> feeds while it is awaited. A callback that throws does not
  reach \<open>next()\<close>: the stream hands no later chunk to it. The exception is raised in the
  caller of the stream's \<open>write\<close>, not in \<open>runSession\<close>; how \<open>execFileStreamOutput\<close> ends is
  the environment's.

  In \<open>debugSession\<close> the output is parsed inside \<open>try { ... } catch { }\<close>, which drops what
  the parser throws.
\<close>

definition runSession :: "Environment \<Rightarrow> TestRunner \<Rightarrow> TestRunner \<times> thrown option" where
  "runSession env r =
     (if \<not> launchConfiguration env then (r, None)
      else if isCancellationRequested env then (r, None)
      else let r = call (AppendOutput (started_banner env)) r;
               r = fst (for_of (write_output env) (chunks env) r)
           in (r, execFileStreamOutput env))"

definition debugSession :: "Environment \<Rightarrow> TestRunner \<Rightarrow> TestRunner \<times> thrown option" where
  "debugSession env r =
     (if \<not> launchConfiguration env then (r, None)
      else case startDebugging env of
        Throws reason \<Rightarrow> (r, Some reason)
      | Returns started \<Rightarrow>
          if started
          then let r = call (AppendOutput (started_banner env)) r
               in if \<not> isCancellationRequested env
                  then (case readFile env of
                          Some debugOutput \<Rightarrow> (fst (write_output env debugOutput r), None)
                        | None \<Rightarrow> (r, None))
                  else (r, None)
          else (r, Some Undefined))"




text \<open>The constructor: a runner for a request.\<close>

definition TestRunner :: "TestItem list \<Rightarrow> TestRunRequest \<Rightarrow> TestRunner" where
  "TestRunner items request =
     (let lists = createTestLists items request
      in \<lparr>testItems = testItems lists, testArgs = testArgs lists,
          currentTestItem = None, testRun = []\<rparr>)"

section \<open>Notions used in the statements\<close>

text \<open>
  The primary loop is a depth-first walk that pops from the end of the queue. What one
  queue entry adds to the list, and to the second queue, is a function of its subtree.
\<close>

fun list_of :: "TestItem list option \<Rightarrow> TestItem \<Rightarrow> TestItem list" where
  "list_of ex (TestItem i l p cs) =
     (let test = TestItem i l p cs in
      if exclude_includes ex test then []
      else if is_test_case test \<and> \<not> exclude_find_startsWith ex test then [test]
      else if cs \<noteq> [] then concat (map (list_of ex) (rev cs))
      else [test])"

fun queue2_of :: "TestItem list option \<Rightarrow> TestItem \<Rightarrow> TestItem list" where
  "queue2_of ex (TestItem i l p cs) =
     (let test = TestItem i l p cs in
      if exclude_includes ex test then []
      else if is_test_case test \<and> \<not> exclude_find_startsWith ex test then cs
      else concat (map (queue2_of ex) (rev cs)))"

text \<open>The items that can be reached from an item without passing an excluded one.\<close>

fun visible :: "TestItem list option \<Rightarrow> TestItem \<Rightarrow> TestItem list" where
  "visible ex (TestItem i l p cs) =
     (if exclude_includes ex (TestItem i l p cs) then []
      else TestItem i l p cs # concat (map (visible ex) cs))"

text \<open>
  The shape the extension's tree has: the children of a test-case item are test methods,
  which have no children of their own.
\<close>

fun methods_are_leaves :: "TestItem \<Rightarrow> bool" where
  "methods_are_leaves (TestItem i l p cs) =
     ((is_test_case (TestItem i l p cs) \<longrightarrow> list_all (\<lambda>c. children c = []) cs)
      \<and> list_all methods_are_leaves cs)"

text \<open>What one entry of the initial queue adds to the final list of test items.\<close>

definition contrib :: "TestItem list option \<Rightarrow> TestItem \<Rightarrow> TestItem set" where
  "contrib ex t = set (list_of ex t) \<union> {c \<in> set (queue2_of ex t). \<not> exclude_includes ex c}"

text \<open>The calls on the test run that settle a test, and the test they name.\<close>

definition is_Passed :: "TestRunCall \<Rightarrow> bool" where
  "is_Passed c = (case c of Passed x d \<Rightarrow> True | _ \<Rightarrow> False)"

definition terminal_item :: "TestRunCall \<Rightarrow> TestItem option" where
  "terminal_item c =
     (case c of Passed x d \<Rightarrow> Some x | Failed x m \<Rightarrow> Some x | Skipped x \<Rightarrow> Some x
      | _ \<Rightarrow> None)"

text \<open>
  What a loop over the lines does to a runner whose test items are distinct: it appends
  calls, the test items stay distinct and none is added, and a test that a passed, failed
  or skipped call names was among the test items and no longer is.
\<close>

definition shrinks :: "(TestRunCall \<Rightarrow> bool) \<Rightarrow> TestRunner \<Rightarrow> TestRunner \<Rightarrow> bool" where
  "shrinks ok r r' =
     (\<exists>evs. testRun r' = testRun r @ evs
        \<and> list_all ok evs
        \<and> distinct (testItems r')
        \<and> set (testItems r') \<subseteq> set (testItems r)
        \<and> (\<forall>c \<in> set evs. \<forall>x. terminal_item c = Some x
              \<longrightarrow> x \<in> set (testItems r) \<and> x \<notin> set (testItems r')))"

text \<open>The characters that a group collects while several are consumed.\<close>

definition pushes :: "string \<Rightarrow> string option \<Rightarrow> string option" where
  "pushes u cur = map_option (\<lambda>g. g @ u) cur"

text \<open>How often \<open>testRun.end()\<close> has been called.\<close>

definition ends :: "TestRunner \<Rightarrow> nat" where
  "ends r = count_list (testRun r) End"


section \<open>A small test tree\<close>

text \<open>
  One target \<open>MyTarget\<close> with one test case class \<open>FooTests\<close> and its two methods, with
  hierarchical ids (\<open>target/class/method\<close>).
\<close>

definition anc_MyTarget :: Ancestor where
  "anc_MyTarget = Ancestor ''MyTarget'' ''MyTarget'' None"

definition anc_FooTests :: Ancestor where
  "anc_FooTests = Ancestor ''MyTarget/FooTests'' ''FooTests'' (Some anc_MyTarget)"

definition item_testBar :: TestItem where
  "item_testBar = TestItem ''MyTarget/FooTests/testBar'' ''testBar'' (Some anc_FooTests) []"

definition item_testBaz :: TestItem where
  "item_testBaz = TestItem ''MyTarget/FooTests/testBaz'' ''testBaz'' (Some anc_FooTests) []"

definition item_FooTests :: TestItem where
  "item_FooTests =
     TestItem ''MyTarget/FooTests'' ''FooTests'' (Some anc_MyTarget) [item_testBar, item_testBaz]"

definition item_MyTarget :: TestItem where
  "item_MyTarget = TestItem ''MyTarget'' ''MyTarget'' None [item_FooTests]"

section \<open>Example runs\<close>

text \<open>
  The package of the example: the target \<open>MyTarget\<close> at the root of the folder \<open>/repo\<close>,
  with the source file \<open>Tests/FooTests.swift\<close>; and a runner for all tests of the small
  test tree.
\<close>

definition example_ctx :: FolderContext where
  "example_ctx =
     \<lparr>folder = ''/repo'',
      targets = [\<lparr>name = ''MyTarget'', path = ''.'', sources = [''Tests/FooTests.swift'']\<rparr>],
      cwd = ''/''\<rparr>"

definition example_runner :: TestRunner where
  "example_runner = TestRunner [item_MyTarget] \<lparr>include_req = None, exclude_req = None\<rparr>"

text \<open>The same runner while \<open>testBaz\<close> is running.\<close>

definition running_runner :: TestRunner where
  "running_runner = example_runner\<lparr>currentTestItem := Some item_testBaz\<rparr>"

definition failed_line :: string where
  "failed_line = ''/repo/Tests/FooTests.swift:10: error: FooTests.testBar : expected true''"

definition passed_line :: string where
  "passed_line = ''Test Case '' @ quote @ ''FooTests.testBar'' @ quote @ '' passed (0.012 seconds)''"


definition skipped_line :: string where
  "skipped_line = ''/repo/Tests/FooTests.swift:12: FooTests.testBaz : Test skipped: not today''"

text \<open>Lines that name a test that is not among the test items.\<close>

definition unknown_started_line :: string where
  "unknown_started_line = ''Test Case '' @ quote @ ''BarTests.testQux'' @ quote @ '' started at 2022-01-01''"

definition unknown_passed_line :: string where
  "unknown_passed_line = ''Test Case '' @ quote @ ''BarTests.testQux'' @ quote @ '' passed (0.5 seconds)''"

definition unknown_failed_line :: string where
  "unknown_failed_line = ''/repo/Tests/BarTests.swift:3: error: BarTests.testQux : expected true''"

definition unknown_skipped_line :: string where
  "unknown_skipped_line = ''/repo/Tests/BarTests.swift:3: BarTests.testQux : Test skipped: no''"

text \<open>The same for the output of macOS, whose test ids are \<open>target.class/function\<close>.\<close>

definition darwin_item :: TestItem where
  "darwin_item =
     TestItem ''MyTests.FooTests/testBar'' ''testBar''
       (Some (Ancestor ''MyTests.FooTests'' ''FooTests''
          (Some (Ancestor ''MyTests'' ''MyTests'' None)))) []"

definition darwin_runner :: TestRunner where
  "darwin_runner =
     \<lparr>testItems = [darwin_item], testArgs = [], currentTestItem = Some darwin_item, testRun = []\<rparr>"

definition darwin_passed_line :: string where
  "darwin_passed_line =
     ''Test Case '' @ quote @ ''-[MyTests.FooTests testBar]'' @ quote @ '' passed (0.012 seconds).''"

definition darwin_unknown_started_line :: string where
  "darwin_unknown_started_line =
     ''Test Case '' @ quote @ ''-[MyTests.BarTests testQux]'' @ quote @ '' started.''"

definition darwin_unknown_passed_line :: string where
  "darwin_unknown_passed_line =
     ''Test Case '' @ quote @ ''-[MyTests.BarTests testQux]'' @ quote @ '' passed (0.5 seconds).''"

definition darwin_unknown_failed_line :: string where
  "darwin_unknown_failed_line =
     ''/repo/Tests/BarTests.swift:3: error: -[MyTests.BarTests testQux] : expected true''"

definition darwin_unknown_skipped_line :: string where
  "darwin_unknown_skipped_line =
     ''/repo/Tests/BarTests.swift:3: -[MyTests.BarTests testQux] : Test skipped''"

text \<open>
  A failure that XCTest reports without a source location: the file is \<open><unknown>\<close> and the
  line is 0. First as macOS prints it, then as Linux does.
\<close>

definition darwin_unlocated_line :: string where
  "darwin_unlocated_line =
     ''<unknown>:0: error: -[MyTests.FooTests testBar] : failed: caught error''"

definition unlocated_line :: string where
  "unlocated_line = ''<unknown>:0: error: FooTests.testBar : threw error''"

text \<open>A request that includes a test case class and one of its methods.\<close>

definition overlapping_runner :: TestRunner where
  "overlapping_runner =
     TestRunner [item_MyTarget]
       \<lparr>include_req = Some [item_FooTests, item_testBar], exclude_req = None\<rparr>"

text \<open>
  Two targets with a test of the same class and function name each; the source file of
  either lies under the path of its target.
\<close>

definition item_A_bar :: TestItem where
  "item_A_bar =
     TestItem ''TargetA/Foo/bar'' ''bar''
       (Some (Ancestor ''TargetA/Foo'' ''Foo'' (Some (Ancestor ''TargetA'' ''TargetA'' None)))) []"

definition item_B_bar :: TestItem where
  "item_B_bar =
     TestItem ''TargetB/Foo/bar'' ''bar''
       (Some (Ancestor ''TargetB/Foo'' ''Foo'' (Some (Ancestor ''TargetB'' ''TargetB'' None)))) []"

definition two_targets_ctx :: FolderContext where
  "two_targets_ctx =
     \<lparr>folder = ''/repo'',
      targets = [\<lparr>name = ''TargetA'', path = ''Tests/TargetA'', sources = [''Foo.swift'']\<rparr>,
                 \<lparr>name = ''TargetB'', path = ''Tests/TargetB'', sources = [''Foo.swift'']\<rparr>],
      cwd = ''/''\<rparr>"



text \<open>
  The test case classes and the targets of these tests, and a request that includes the
  class of the first target, its method and the class of the second target. The test of
  the first target fails, the test of the second passes.
\<close>

definition item_A_Foo :: TestItem where
  "item_A_Foo =
     TestItem ''TargetA/Foo'' ''Foo'' (Some (Ancestor ''TargetA'' ''TargetA'' None)) [item_A_bar]"

definition item_B_Foo :: TestItem where
  "item_B_Foo =
     TestItem ''TargetB/Foo'' ''Foo'' (Some (Ancestor ''TargetB'' ''TargetB'' None)) [item_B_bar]"

definition item_TargetA :: TestItem where
  "item_TargetA = TestItem ''TargetA'' ''TargetA'' None [item_A_Foo]"

definition item_TargetB :: TestItem where
  "item_TargetB = TestItem ''TargetB'' ''TargetB'' None [item_B_Foo]"

definition two_targets_overlapping_runner :: TestRunner where
  "two_targets_overlapping_runner =
     TestRunner [item_TargetA, item_TargetB]
       \<lparr>include_req = Some [item_A_Foo, item_A_bar, item_B_Foo], exclude_req = None\<rparr>"

definition target_A_failed_line :: string where
  "target_A_failed_line = ''/repo/Tests/TargetA/Foo.swift:7: error: Foo.bar : expected true''"

definition Foo_bar_passed_line :: string where
  "Foo_bar_passed_line = ''Test Case '' @ quote @ ''Foo.bar'' @ quote @ '' passed (0.5 seconds)''"



section \<open>Lemmas about the loops\<close>

lemmas example_items =
  anc_MyTarget_def anc_FooTests_def item_testBar_def item_testBaz_def item_FooTests_def
  item_MyTarget_def

lemma queue_step_snoc:
  "queue_step ex (queue @ [test], list, queue2) =
     (if exclude_includes ex test then (queue, list, queue2)
      else if is_test_case test \<and> \<not> exclude_find_startsWith ex test
        then (queue, list @ [test], queue2 @ children test)
      else if children test \<noteq> [] then (queue @ children test, list, queue2)
      else (queue, list @ [test], queue2))"
  by (simp add: queue_step_def Let_def)

lemma list_of_eq:
  "list_of ex test =
     (if exclude_includes ex test then []
      else if is_test_case test \<and> \<not> exclude_find_startsWith ex test then [test]
      else if children test \<noteq> [] then concat (map (list_of ex) (rev (children test)))
      else [test])"
  by (cases test) (simp add: Let_def)

lemma queue2_of_eq:
  "queue2_of ex test =
     (if exclude_includes ex test then []
      else if is_test_case test \<and> \<not> exclude_find_startsWith ex test then children test
      else concat (map (queue2_of ex) (rev (children test))))"
  by (cases test) (simp add: Let_def)

lemma queue_loop_eq:
  "queue_loop ex (queue, list, queue2) =
     ([], list @ concat (map (list_of ex) (rev queue)),
      queue2 @ concat (map (queue2_of ex) (rev queue)))"
proof (induction ex "(queue, list, queue2)" arbitrary: queue list queue2 rule: queue_loop.induct)
  case (1 ex)
  show ?case
  proof (cases "queue = []")
    case True
    then show ?thesis by (simp add: queue_loop.simps)
  next
    case False
    then obtain q t where q: "queue = q @ [t]"
      by (metis append_butlast_last_id)
    obtain q' l' q2' where st: "queue_step ex (queue, list, queue2) = (q', l', q2')"
      by (metis prod_cases3)
    have "queue_loop ex (queue, list, queue2) = queue_loop ex (q', l', q2')"
      using False st by (subst queue_loop.simps) simp
    also have "\<dots> = ([], l' @ concat (map (list_of ex) (rev q')),
        q2' @ concat (map (queue2_of ex) (rev q')))"
      using "1.hyps" [of q' l' q2'] False st by simp
    also have "\<dots> = ([], list @ concat (map (list_of ex) (rev queue)),
        queue2 @ concat (map (queue2_of ex) (rev queue)))"
      using st list_of_eq [of ex t] queue2_of_eq [of ex t] unfolding q queue_step_snoc
      by (auto split: if_splits)
    finally show ?thesis .
  qed
qed

lemma queue2_loop_eq:
  "queue2_loop ex queue2 list = list @ filter (\<lambda>test. \<not> exclude_includes ex test) (rev queue2)"
proof (induction queue2 arbitrary: list rule: rev_induct)
  case Nil
  then show ?case by (simp add: queue2_loop.simps)
next
  case (snoc x xs)
  then show ?case by (subst queue2_loop.simps) (simp add: Let_def)
qed

lemma not_in_children: "t \<notin> set (children t)"
proof
  assume "t \<in> set (children t)"
  then have "size t \<le> size_list size (children t)"
    by (simp add: size_list_estimation')
  then show False by (cases t) simp
qed

declare list_of.simps [simp del] queue2_of.simps [simp del] visible.simps [simp del]
  methods_are_leaves.simps [simp del]

lemma visible_eq:
  "visible ex t =
     (if exclude_includes ex t then [] else t # concat (map (visible ex) (children t)))"
  by (cases t) (simp add: visible.simps)

lemma methods_are_leaves_eq:
  "methods_are_leaves t =
     ((is_test_case t \<longrightarrow> (\<forall>c \<in> set (children t). children c = []))
      \<and> (\<forall>c \<in> set (children t). methods_are_leaves c))"
  by (cases t) (simp add: methods_are_leaves.simps list_all_iff)

lemma visible_self: "\<not> exclude_includes ex t \<Longrightarrow> t \<in> set (visible ex t)"
  by (subst visible_eq) simp

lemma visible_child:
  "\<not> exclude_includes ex t \<Longrightarrow> c \<in> set (children t) \<Longrightarrow> x \<in> set (visible ex c)
   \<Longrightarrow> x \<in> set (visible ex t)"
  by (subst visible_eq) auto

lemma contrib_visible: "contrib ex t \<subseteq> set (visible ex t)"
proof (induction t)
  case (TestItem i l p cs)
  let ?t = "TestItem i l p cs"
  have ih: "\<And>c. c \<in> set (children ?t) \<Longrightarrow> contrib ex c \<subseteq> set (visible ex c)"
    using TestItem by simp
  show ?case
  proof (cases "exclude_includes ex ?t")
    case True
    then show ?thesis
      by (simp add: contrib_def list_of_eq [of ex ?t] queue2_of_eq [of ex ?t])
  next
    case False
    show ?thesis
    proof
      fix x assume "x \<in> contrib ex ?t"
      then consider "x = ?t" | "x \<in> set (children ?t)" "\<not> exclude_includes ex x"
        | c where "c \<in> set (children ?t)" "x \<in> contrib ex c"
        using False
        by (auto simp: contrib_def list_of_eq [of ex ?t] queue2_of_eq [of ex ?t]
            split: if_splits)
      then show "x \<in> set (visible ex ?t)"
      proof cases
        case 1
        then show ?thesis using False visible_self by blast
      next
        case 2
        then show ?thesis using False visible_self visible_child by blast
      next
        case 3
        then show ?thesis using False ih visible_child by blast
      qed
    qed
  qed
qed

lemma contrib_not_excluded: "x \<in> contrib ex t \<Longrightarrow> \<not> exclude_includes ex x"
proof (induction t)
  case (TestItem i l p cs)
  let ?t = "TestItem i l p cs"
  from TestItem.prems consider "exclude_includes ex ?t" "False"
    | "\<not> exclude_includes ex ?t" "x = ?t"
    | "\<not> exclude_includes ex x"
    | c where "c \<in> set (children ?t)" "x \<in> contrib ex c"
    by (auto simp: contrib_def list_of_eq [of ex ?t] queue2_of_eq [of ex ?t]
        split: if_splits)
  then show ?case
    using TestItem.IH by cases auto
qed

lemma find_startsWith_Cons:
  "exclude_find_startsWith (Some (m # xs)) t =
     (prefix (id_str t) (id_str m) \<or> exclude_find_startsWith (Some xs) t)"
  by (simp add: exclude_find_startsWith_def)

lemma includes_Cons:
  "exclude_includes (Some (m # xs)) t = (t = m \<or> exclude_includes (Some xs) t)"
  by (auto simp: exclude_includes_def)

lemma contrib_leaf:
  "children t = [] \<Longrightarrow> contrib ex t = (if exclude_includes ex t then {} else {t})"
  by (simp add: contrib_def list_of_eq [of ex t] queue2_of_eq [of ex t])

lemma contrib_exclude_leaf:
  assumes m: "children m = []" and t: "methods_are_leaves t"
  shows "contrib (Some (m # xs)) t =
     contrib (Some xs) t - {m}
       - {c. is_test_case c \<and> prefix (id_str c) (id_str m) \<and> children c \<noteq> []}"
  using t
proof (induction t)
  case (TestItem i l p cs)
  let ?t = "TestItem i l p cs"
  let ?R = "{c. is_test_case c \<and> prefix (id_str c) (id_str m) \<and> children c \<noteq> []}"
  have ih: "\<And>c. c \<in> set (children ?t) \<Longrightarrow>
      contrib (Some (m # xs)) c = contrib (Some xs) c - {m} - ?R"
    using TestItem.IH TestItem.prems by (simp add: methods_are_leaves_eq [of ?t])
  have leaves: "is_test_case ?t \<Longrightarrow> c \<in> set (children ?t) \<Longrightarrow> children c = []" for c
    using TestItem.prems by (simp add: methods_are_leaves_eq [of ?t])
  show ?case
  proof (cases "children ?t = []")
    case True
    then show ?thesis
      using m by (auto simp: contrib_leaf includes_Cons)
  next
    case kids: False
    then have tm: "?t \<noteq> m" using m by auto
    show ?thesis
    proof (cases "exclude_includes (Some xs) ?t")
      case True
      then show ?thesis
        by (simp add: contrib_def list_of_eq [of _ ?t] queue2_of_eq [of _ ?t] includes_Cons)
    next
      case notex: False
      show ?thesis
      proof (cases "is_test_case ?t \<and> \<not> exclude_find_startsWith (Some xs) ?t")
        case False
        then have "contrib (Some (m # xs)) ?t = (\<Union>c \<in> set (children ?t). contrib (Some (m # xs)) c)"
          using kids notex tm
          by (auto simp: contrib_def list_of_eq [of _ ?t] queue2_of_eq [of _ ?t]
              includes_Cons find_startsWith_Cons)
        moreover have "contrib (Some xs) ?t = (\<Union>c \<in> set (children ?t). contrib (Some xs) c)"
          using False kids notex
          by (auto simp: contrib_def list_of_eq [of _ ?t] queue2_of_eq [of _ ?t])
        ultimately show ?thesis using ih by auto
      next
        case acc: True
        then have old: "contrib (Some xs) ?t =
            insert ?t {c \<in> set (children ?t). \<not> exclude_includes (Some xs) c}"
          using notex
          by (auto simp: contrib_def list_of_eq [of _ ?t] queue2_of_eq [of _ ?t])
        have kidsR: "c \<in> set (children ?t) \<Longrightarrow> c \<notin> ?R" for c
          using leaves acc by auto
        show ?thesis
        proof (cases "prefix (id_str ?t) (id_str m)")
          case False
          then have "contrib (Some (m # xs)) ?t =
              insert ?t {c \<in> set (children ?t). \<not> exclude_includes (Some (m # xs)) c}"
            using acc notex tm
            by (auto simp: contrib_def list_of_eq [of _ ?t] queue2_of_eq [of _ ?t]
                includes_Cons find_startsWith_Cons)
          then show ?thesis
            using old False tm kidsR by (auto simp: includes_Cons)
        next
          case True
          then have "contrib (Some (m # xs)) ?t = (\<Union>c \<in> set (children ?t). contrib (Some (m # xs)) c)"
            using kids notex tm
            by (auto simp: contrib_def list_of_eq [of _ ?t] queue2_of_eq [of _ ?t]
                includes_Cons find_startsWith_Cons)
          also have "\<dots> = {c \<in> set (children ?t). \<not> exclude_includes (Some (m # xs)) c}"
            using leaves acc by (auto simp: contrib_leaf split: if_splits)
          finally show ?thesis
            using old True tm kidsR acc kids not_in_children [of ?t]
            by (auto simp: includes_Cons)
        qed
      qed
    qed
  qed
qed

lemma createTestLists_eq:
  "createTestLists items request =
     (let ex = exclude_req request;
          start = rev (initial_queue items request);
          list = concat (map (list_of ex) start);
          queue2 = concat (map (queue2_of ex) start)
      in \<lparr>testItems = list @ filter (\<lambda>test. \<not> exclude_includes ex test) (rev queue2),
          testArgs = (if non_empty (include_req request) \<or> non_empty (exclude_req request)
                      then map id_str list else [])\<rparr>)"
  by (simp add: createTestLists_def queue_loop_eq queue2_loop_eq Let_def)

lemma set_testItems:
  "set (testItems (createTestLists items request)) =
     (\<Union>s \<in> set (initial_queue items request). contrib (exclude_req request) s)"
  by (auto simp: createTestLists_eq Let_def contrib_def)

section \<open>Accepting a test case as a whole\<close>

text \<open>
  C1 (as the code has it). A test-case item popped from the primary queue is accepted as
  a whole (pushed on the list, its children pushed on the second queue) when it is not
  in \<open>exclude\<close> and its own id is not a string prefix of the id of any excluded item; and
  an item with children is accepted only then. The prefix test runs from the case to the
  excluded item (\<open>item.id.startsWith(test.id)\<close>): an excluded method blocks its case.
\<close>

theorem case_accepted_iff:
  assumes "is_test_case test"
  shows "(test \<notin> set xs \<and> (\<forall>item \<in> set xs. \<not> prefix (id_str test) (id_str item))
           \<longrightarrow> queue_step (Some xs) (queue @ [test], list, queue2)
                 = (queue, list @ [test], queue2 @ children test))
       \<and> (children test \<noteq> [] \<longrightarrow>
            (queue_step (Some xs) (queue @ [test], list, queue2)
                 = (queue, list @ [test], queue2 @ children test))
            = (test \<notin> set xs \<and> (\<forall>item \<in> set xs. \<not> prefix (id_str test) (id_str item))))
       \<and> queue_step None (queue @ [test], list, queue2)
            = (queue, list @ [test], queue2 @ children test)"
  using assms
  by (auto simp: queue_step_snoc exclude_includes_def exclude_find_startsWith_def list_ex_iff)

theorem case_accepted_iff_witness:
  "is_test_case item_FooTests \<and> children item_FooTests \<noteq> []
   \<and> queue_step (Some [item_MyTarget]) ([item_FooTests], [], [])
       = ([], [item_FooTests], [item_testBar, item_testBaz])
   \<and> queue_step (Some [item_testBar]) ([item_FooTests], [], [])
       \<noteq> ([], [item_FooTests], [item_testBar, item_testBaz])"
  using case_accepted_iff [of item_FooTests "[item_MyTarget]" "[]" "[]" "[]"]
    case_accepted_iff [of item_FooTests "[item_testBar]" "[]" "[]" "[]"]
  by (simp add: example_items is_test_case_def)

text \<open>
  The claim as written has the prefix test the other way round (no excluded id is a
  prefix of the case's id). With the method \<open>testBar\<close> excluded, no excluded id is a prefix
  of \<open>MyTarget/FooTests\<close> and the case is not in \<open>exclude\<close>, yet the case is not accepted:
  its children go back on the primary queue. With the target excluded, an excluded id is
  a prefix of the case's id, yet the case is accepted.
\<close>

theorem case_accepted_counterexample:
  "is_test_case item_FooTests
   \<and> item_FooTests \<noteq> item_testBar
   \<and> \<not> prefix (id_str item_testBar) (id_str item_FooTests)
   \<and> queue_step (Some [item_testBar]) ([item_FooTests], [], [])
       = ([item_testBar, item_testBaz], [], [])
   \<and> prefix (id_str item_MyTarget) (id_str item_FooTests)
   \<and> queue_step (Some [item_MyTarget]) ([item_FooTests], [], [])
       = ([], [item_FooTests], [item_testBar, item_testBaz])"
  by (simp add: example_items is_test_case_def queue_step_def exclude_includes_def
      exclude_find_startsWith_def)

section \<open>Filter arguments\<close>

text \<open>
  C8 (as the code has it). When neither \<open>include\<close> nor \<open>exclude\<close> holds an item, the
  argument list is empty. When the request is filtered, the argument list holds the ids
  of the list as the first loop leaves it, before the second queue is drained; that list
  is the front part of the final list of test items. It can be empty too.
\<close>

theorem filterArgs_filtered:
  "(\<not> non_empty (include_req request) \<and> \<not> non_empty (exclude_req request)
      \<longrightarrow> testArgs (createTestLists items request) = [])
   \<and> (non_empty (include_req request) \<or> non_empty (exclude_req request)
      \<longrightarrow> testArgs (createTestLists items request)
           = map id_str (fst (snd (queue_loop (exclude_req request)
                                      (initial_queue items request, [], [])))))
   \<and> prefix (fst (snd (queue_loop (exclude_req request) (initial_queue items request, [], []))))
        (testItems (createTestLists items request))"
  by (simp add: createTestLists_eq queue_loop_eq Let_def)

theorem filterArgs_filtered_witness:
  "non_empty (exclude_req \<lparr>include_req = None, exclude_req = Some [item_testBar]\<rparr>)
   \<and> testArgs (createTestLists [item_MyTarget]
         \<lparr>include_req = None, exclude_req = Some [item_testBar]\<rparr>)
       = map id_str (fst (snd (queue_loop (Some [item_testBar]) ([item_MyTarget], [], []))))
   \<and> testArgs (createTestLists [item_MyTarget]
         \<lparr>include_req = None, exclude_req = Some [item_testBar]\<rparr>)
       = [''MyTarget/FooTests/testBaz'']
   \<and> \<not> non_empty (include_req \<lparr>include_req = Some [], exclude_req = None\<rparr>)
   \<and> \<not> non_empty (exclude_req \<lparr>include_req = Some [], exclude_req = None\<rparr>)
   \<and> testArgs (createTestLists [item_MyTarget] \<lparr>include_req = Some [], exclude_req = None\<rparr>)
       = []"
proof -
  have a: "testArgs (createTestLists [item_MyTarget]
         \<lparr>include_req = None, exclude_req = Some [item_testBar]\<rparr>)
       = [''MyTarget/FooTests/testBaz'']"
    by code_simp
  have b: "initial_queue [item_MyTarget]
      \<lparr>include_req = None, exclude_req = Some [item_testBar]\<rparr> = [item_MyTarget]"
    by (simp add: initial_queue_def)
  show ?thesis
    using a b
      filterArgs_filtered [of "\<lparr>include_req = None, exclude_req = Some [item_testBar]\<rparr>"
        "[item_MyTarget]"]
      filterArgs_filtered [of "\<lparr>include_req = Some [], exclude_req = None\<rparr>" "[item_MyTarget]"]
    by (simp add: non_empty_def)
qed

text \<open>
  The claim as written says the argument list is empty only if the request is not
  filtered. A request that includes one method and excludes the same method is filtered,
  and its argument list is empty.
\<close>

theorem filterArgs_counterexample:
  "non_empty (include_req \<lparr>include_req = Some [item_testBar], exclude_req = Some [item_testBar]\<rparr>)
   \<and> testArgs (createTestLists [item_MyTarget]
        \<lparr>include_req = Some [item_testBar], exclude_req = Some [item_testBar]\<rparr>) = []"
  by code_simp

section \<open>Exclusion\<close>

text \<open>
  C7 (as the code has it). No item of \<open>exclude\<close> is in the list of test items, and every
  item in the list is reached from the initial queue without passing an excluded item,
  so an excluded test case takes the methods reached through it with it. In a tree whose
  test cases have methods without children, excluding one more item \<open>m\<close> without children
  removes from the set of test items exactly \<open>m\<close> and every test case with children whose
  id is a string prefix of the id of \<open>m\<close> (its own test case among them): such a case is no
  longer run as a whole, and its other methods stay.
\<close>

theorem exclusion_propagation:
  "(\<forall>t \<in> set (testItems (createTestLists items request)).
       \<not> exclude_includes (exclude_req request) t
       \<and> (\<exists>s \<in> set (initial_queue items request). t \<in> set (visible (exclude_req request) s)))
   \<and> (children m = [] \<and> (\<forall>s \<in> set (initial_queue items request). methods_are_leaves s)
        \<and> exclude_req request = Some xs
      \<longrightarrow> set (testItems (createTestLists items (request\<lparr>exclude_req := Some (m # xs)\<rparr>)))
           = set (testItems (createTestLists items request)) - {m}
             - {c. is_test_case c \<and> prefix (id_str c) (id_str m) \<and> children c \<noteq> []})"
proof -
  have iq: "initial_queue items (request\<lparr>exclude_req := e\<rparr>) = initial_queue items request" for e
    by (simp add: initial_queue_def)
  have a: "\<not> exclude_includes (exclude_req request) t
       \<and> (\<exists>s \<in> set (initial_queue items request). t \<in> set (visible (exclude_req request) s))"
    if "t \<in> set (testItems (createTestLists items request))" for t
    using that contrib_not_excluded contrib_visible unfolding set_testItems by blast
  have b: "set (testItems (createTestLists items (request\<lparr>exclude_req := Some (m # xs)\<rparr>)))
           = set (testItems (createTestLists items request)) - {m}
             - {c. is_test_case c \<and> prefix (id_str c) (id_str m) \<and> children c \<noteq> []}"
    if "children m = []" "\<forall>s \<in> set (initial_queue items request). methods_are_leaves s"
      "exclude_req request = Some xs"
    using that contrib_exclude_leaf [of m _ xs] unfolding set_testItems iq by auto
  show ?thesis using a b by blast
qed

theorem exclusion_propagation_witness:
  "children item_testBar = [] \<and> methods_are_leaves item_MyTarget
   \<and> testItems (createTestLists [item_MyTarget] \<lparr>include_req = None, exclude_req = Some []\<rparr>)
       = [item_FooTests, item_testBaz, item_testBar]
   \<and> set (testItems (createTestLists [item_MyTarget]
         \<lparr>include_req = None, exclude_req = Some [item_testBar]\<rparr>))
       = set [item_FooTests, item_testBaz, item_testBar] - {item_testBar}
         - {c. is_test_case c \<and> prefix (id_str c) (id_str item_testBar) \<and> children c \<noteq> []}
   \<and> testItems (createTestLists [item_MyTarget]
         \<lparr>include_req = None, exclude_req = Some [item_testBar]\<rparr>) = [item_testBaz]
   \<and> testItems (createTestLists [item_MyTarget]
         \<lparr>include_req = None, exclude_req = Some [item_FooTests]\<rparr>) = []"
proof -
  have h1: "children item_testBar = []" by code_simp
  have h2: "methods_are_leaves item_MyTarget" by code_simp
  have h3: "initial_queue [item_MyTarget] \<lparr>include_req = None, exclude_req = Some []\<rparr>
      = [item_MyTarget]"
    by (simp add: initial_queue_def)
  have e1: "testItems (createTestLists [item_MyTarget] \<lparr>include_req = None, exclude_req = Some []\<rparr>)
       = [item_FooTests, item_testBaz, item_testBar]"
    by code_simp
  have e2: "testItems (createTestLists [item_MyTarget]
         \<lparr>include_req = None, exclude_req = Some [item_testBar]\<rparr>) = [item_testBaz]"
    by code_simp
  have e3: "testItems (createTestLists [item_MyTarget]
         \<lparr>include_req = None, exclude_req = Some [item_FooTests]\<rparr>) = []"
    by code_simp
  have "set (testItems (createTestLists [item_MyTarget]
         (\<lparr>include_req = None, exclude_req = Some []\<rparr>\<lparr>exclude_req := Some [item_testBar]\<rparr>)))
       = set (testItems (createTestLists [item_MyTarget]
           \<lparr>include_req = None, exclude_req = Some []\<rparr>)) - {item_testBar}
         - {c. is_test_case c \<and> prefix (id_str c) (id_str item_testBar) \<and> children c \<noteq> []}"
    using exclusion_propagation [of "[item_MyTarget]"
        "\<lparr>include_req = None, exclude_req = Some []\<rparr>" item_testBar "[]"] h1 h2 h3
    by simp
  then show ?thesis
    using h1 h2 e1 e2 e3 by simp
qed

text \<open>
  The claim as written says that excluding a method removes only that method. With
  \<open>testBar\<close> excluded, the test case \<open>FooTests\<close>, which is in the list when nothing is
  excluded, is no longer in it. And an excluded test case does not remove a method of
  its own that the request includes.
\<close>

theorem exclusion_propagation_counterexample:
  "testItems (createTestLists [item_MyTarget] \<lparr>include_req = None, exclude_req = None\<rparr>)
       = [item_FooTests, item_testBaz, item_testBar]
   \<and> testItems (createTestLists [item_MyTarget]
         \<lparr>include_req = None, exclude_req = Some [item_testBar]\<rparr>) = [item_testBaz]
   \<and> item_FooTests \<noteq> item_testBar
   \<and> testItems (createTestLists [item_MyTarget]
         \<lparr>include_req = Some [item_testBar], exclude_req = Some [item_FooTests]\<rparr>)
       = [item_testBar]"
  by code_simp

section \<open>Lemmas about the parser\<close>

lemma findIndex_Some:
  "findIndex P xs = Some i \<Longrightarrow> i < length xs \<and> P (xs ! i) \<and> (\<forall>j<i. \<not> P (xs ! j))"
proof (induction xs arbitrary: i)
  case Nil
  then show ?case by simp
next
  case (Cons x xs)
  show ?case
  proof (cases "P x")
    case True
    with Cons.prems show ?thesis by simp
  next
    case False
    with Cons.prems obtain k where k: "findIndex P xs = Some k" "i = Suc k"
      by auto
    from Cons.IH [OF k(1)] False show ?thesis
      by (auto simp: k(2) nth_Cons split: nat.splits)
  qed
qed

lemma findIndex_None: "(findIndex P xs = None) = (\<forall>x \<in> set xs. \<not> P x)"
  by (induction xs) auto



lemma set_splice: "set (splice i xs) \<subseteq> set xs"
  unfolding splice_def by (auto dest: in_set_takeD in_set_dropD)

lemma distinct_splice: "distinct xs \<Longrightarrow> distinct (splice i xs)"
  using set_take_disj_set_drop_if_distinct [of xs i "Suc i"]
  by (simp add: splice_def)

lemma nth_notin_splice:
  assumes "distinct xs" "i < length xs"
  shows "xs ! i \<notin> set (splice i xs)"
proof -
  have xs: "xs = take i xs @ xs ! i # drop (Suc i) xs"
    using assms(2) by (simp add: id_take_nth_drop)
  then have "distinct (take i xs @ xs ! i # drop (Suc i) xs)"
    using assms(1) by simp
  then show ?thesis
    by (auto simp: splice_def)
qed

lemma findIndex_in_target_Some:
  assumes "findIndex_in_target ctx testName filename items = Some i"
  shows "i < length items \<and> suffix testName (id_str (items ! i))"
proof (cases "findIndex (isTestWithFilenameInTarget ctx testName filename) items")
  case None
  with assms show ?thesis
    by (auto simp: findIndex_in_target_def dest: findIndex_Some)
next
  case (Some k)
  with assms have "k = i" by (simp add: findIndex_in_target_def)
  with Some findIndex_Some [OF Some] show ?thesis
    by (auto simp: isTestWithFilenameInTarget_def split: if_splits)
qed

lemma findIndex_in_target_None:
  "(findIndex_in_target ctx testName filename items = None)
     = (\<forall>item \<in> set items. \<not> suffix testName (id_str item))"
proof
  assume "findIndex_in_target ctx testName filename items = None"
  then show "\<forall>item \<in> set items. \<not> suffix testName (id_str item)"
    by (simp add: findIndex_in_target_def findIndex_None split: option.splits)
next
  assume a: "\<forall>item \<in> set items. \<not> suffix testName (id_str item)"
  then have "findIndex (isTestWithFilenameInTarget ctx testName filename) items = None"
    by (simp add: findIndex_None isTestWithFilenameInTarget_def)
  moreover have "findIndex (\<lambda>item. suffix testName (id_str item)) items = None"
    using a by (simp add: findIndex_None)
  ultimately show "findIndex_in_target ctx testName filename items = None"
    by (simp add: findIndex_in_target_def)
qed

text \<open>What one step of a loop over the lines can do to the runner.\<close>

lemma nonDarwin_line_step:
  "nonDarwin_line ctx line r = r
   \<or> nonDarwin_line ctx line r = r\<lparr>currentTestItem := None\<rparr>
   \<or> (\<exists>i < length (testItems r). nonDarwin_line ctx line r =
         (call (Started (testItems r ! i)) r)\<lparr>currentTestItem := Some (testItems r ! i)\<rparr>)
   \<or> (\<exists>i < length (testItems r). \<exists>msg. nonDarwin_line ctx line r =
         (call (Failed (testItems r ! i) msg) r)
           \<lparr>testItems := splice i (testItems r), currentTestItem := None\<rparr>)
   \<or> (\<exists>i < length (testItems r). nonDarwin_line ctx line r =
         (call (Skipped (testItems r ! i)) r)
           \<lparr>testItems := splice i (testItems r), currentTestItem := None\<rparr>)"
proof (cases "exec startedMatch line")
  case (Some m)
  then show ?thesis
    by (cases "findIndex (\<lambda>item. suffix (m ! 1 @ ''/'' @ m ! 2) (id_str item)) (testItems r)")
      (auto simp: nonDarwin_line_def Let_def dest: findIndex_Some)
next
  case started: None
  show ?thesis
  proof (cases "exec failedMatch line")
    case (Some m)
    then show ?thesis
      using started
      by (cases "findIndex_in_target ctx (m ! 3 @ ''/'' @ m ! 4) (m ! 1) (testItems r)")
        (auto simp: nonDarwin_line_def Let_def dest: findIndex_in_target_Some)
  next
    case failed: None
    show ?thesis
    proof (cases "exec skippedMatch line")
      case (Some m)
      then show ?thesis
        using started failed
        by (cases "findIndex_in_target ctx (m ! 3 @ ''/'' @ m ! 4) (m ! 1) (testItems r)")
          (auto simp: nonDarwin_line_def Let_def dest: findIndex_in_target_Some)
    next
      case None
      then show ?thesis
        using started failed by (simp add: nonDarwin_line_def)
    qed
  qed
qed

lemma nonDarwin_passed_line_step:
  "nonDarwin_passed_line line r = r
   \<or> nonDarwin_passed_line line r = r\<lparr>currentTestItem := None\<rparr>
   \<or> (\<exists>i < length (testItems r). \<exists>d. nonDarwin_passed_line line r =
         (call (Passed (testItems r ! i) d) r)
           \<lparr>testItems := splice i (testItems r), currentTestItem := None\<rparr>)"
proof (cases "exec passedMatch line")
  case (Some m)
  then show ?thesis
    by (cases "findIndex (\<lambda>item. suffix (m ! 1 @ ''/'' @ m ! 2) (id_str item)) (testItems r)")
      (auto simp: nonDarwin_passed_line_def Let_def dest: findIndex_Some)
next
  case None
  then show ?thesis by (simp add: nonDarwin_passed_line_def)
qed

lemma shrinks_refl: "distinct (testItems r) \<Longrightarrow> shrinks ok r r"
  by (simp add: shrinks_def)

lemma shrinks_trans:
  assumes "shrinks ok r r1" "shrinks ok r1 r2"
  shows "shrinks ok r r2"
proof -
  from assms(1) obtain e1 where e1: "testRun r1 = testRun r @ e1" "list_all ok e1"
    "distinct (testItems r1)" "set (testItems r1) \<subseteq> set (testItems r)"
    "\<forall>c \<in> set e1. \<forall>x. terminal_item c = Some x
        \<longrightarrow> x \<in> set (testItems r) \<and> x \<notin> set (testItems r1)"
    unfolding shrinks_def by blast
  from assms(2) obtain e2 where e2: "testRun r2 = testRun r1 @ e2" "list_all ok e2"
    "distinct (testItems r2)" "set (testItems r2) \<subseteq> set (testItems r1)"
    "\<forall>c \<in> set e2. \<forall>x. terminal_item c = Some x
        \<longrightarrow> x \<in> set (testItems r1) \<and> x \<notin> set (testItems r2)"
    unfolding shrinks_def by blast
  have "testRun r2 = testRun r @ (e1 @ e2)" using e1(1) e2(1) by simp
  moreover have "list_all ok (e1 @ e2)" using e1(2) e2(2) by simp
  moreover have "set (testItems r2) \<subseteq> set (testItems r)" using e1(4) e2(4) by blast
  moreover have "\<forall>c \<in> set (e1 @ e2). \<forall>x. terminal_item c = Some x
        \<longrightarrow> x \<in> set (testItems r) \<and> x \<notin> set (testItems r2)"
    using e1(4,5) e2(4,5) by auto
  ultimately show ?thesis
    unfolding shrinks_def using e2(3) by blast
qed

lemma shrinks_fold:
  assumes step: "\<And>line r. distinct (testItems r) \<Longrightarrow> shrinks ok r (f line r)"
    and d: "distinct (testItems r)"
  shows "shrinks ok r (fold f lines r)"
  using d
proof (induction lines arbitrary: r)
  case Nil
  then show ?case by (simp add: shrinks_refl)
next
  case (Cons line lines)
  have 1: "shrinks ok r (f line r)" using step Cons.prems by blast
  then have "distinct (testItems (f line r))" by (auto simp: shrinks_def)
  then have "shrinks ok (f line r) (fold f lines (f line r))" by (rule Cons.IH)
  with 1 show ?case by (auto intro: shrinks_trans)
qed

lemma shrinks_terminal:
  assumes "distinct (testItems r)" "i < length (testItems r)" "ok c"
    "terminal_item c = Some (testItems r ! i)"
  shows "shrinks ok r ((call c r)\<lparr>testItems := splice i (testItems r), currentTestItem := cur\<rparr>)"
  using assms set_splice [of i "testItems r"]
  by (auto simp: shrinks_def call_def distinct_splice nth_notin_splice)

lemma nonDarwin_line_shrinks:
  assumes "distinct (testItems r)"
  shows "shrinks (\<lambda>c. \<not> is_Passed c) r (nonDarwin_line ctx line r)"
proof -
  consider (same) "nonDarwin_line ctx line r = r"
    | (cleared) "nonDarwin_line ctx line r = r\<lparr>currentTestItem := None\<rparr>"
    | (started) i where "i < length (testItems r)" "nonDarwin_line ctx line r =
         (call (Started (testItems r ! i)) r)\<lparr>currentTestItem := Some (testItems r ! i)\<rparr>"
    | (failed) i msg where "i < length (testItems r)" "nonDarwin_line ctx line r =
         (call (Failed (testItems r ! i) msg) r)
           \<lparr>testItems := splice i (testItems r), currentTestItem := None\<rparr>"
    | (skipped) i where "i < length (testItems r)" "nonDarwin_line ctx line r =
         (call (Skipped (testItems r ! i)) r)
           \<lparr>testItems := splice i (testItems r), currentTestItem := None\<rparr>"
    using nonDarwin_line_step [of ctx line r] by blast
  then show ?thesis
  proof cases
    case same
    then show ?thesis using assms by (simp add: shrinks_refl)
  next
    case cleared
    then show ?thesis using assms by (simp add: shrinks_def)
  next
    case started
    then show ?thesis using assms
      by (simp add: shrinks_def call_def is_Passed_def terminal_item_def)
  next
    case failed
    then show ?thesis
      using shrinks_terminal [OF assms failed(1), of "\<lambda>c. \<not> is_Passed c"
          "Failed (testItems r ! i) msg" None]
      by (simp add: is_Passed_def terminal_item_def)
  next
    case skipped
    then show ?thesis
      using shrinks_terminal [OF assms skipped(1), of "\<lambda>c. \<not> is_Passed c"
          "Skipped (testItems r ! i)" None]
      by (simp add: is_Passed_def terminal_item_def)
  qed
qed

lemma nonDarwin_passed_line_shrinks:
  assumes "distinct (testItems r)"
  shows "shrinks is_Passed r (nonDarwin_passed_line line r)"
proof -
  consider (same) "nonDarwin_passed_line line r = r"
    | (cleared) "nonDarwin_passed_line line r = r\<lparr>currentTestItem := None\<rparr>"
    | (passed) i d where "i < length (testItems r)" "nonDarwin_passed_line line r =
         (call (Passed (testItems r ! i) d) r)
           \<lparr>testItems := splice i (testItems r), currentTestItem := None\<rparr>"
    using nonDarwin_passed_line_step [of line r] by blast
  then show ?thesis
  proof cases
    case same
    then show ?thesis using assms by (simp add: shrinks_refl)
  next
    case cleared
    then show ?thesis using assms by (simp add: shrinks_def)
  next
    case passed
    then show ?thesis
      using shrinks_terminal [OF assms passed(1), of is_Passed "Passed (testItems r ! i) d" None]
      by (simp add: is_Passed_def terminal_item_def)
  qed
qed

section \<open>Single lines\<close>

lemma nonDarwin_line_failed:
  assumes "exec startedMatch line = None" "exec failedMatch line = Some m"
  shows "nonDarwin_line ctx line r =
     (case findIndex_in_target ctx (m ! 3 @ ''/'' @ m ! 4) (m ! 1) (testItems r) of
        Some i \<Rightarrow>
          r\<lparr>testItems := splice i (testItems r), currentTestItem := None,
            testRun := testRun r @
              [Failed (testItems r ! i)
                 (TestMessage (m ! 5) (Some (Location (m ! 1) (Position (parseInt (m ! 2)) 0))))]\<rparr>
      | None \<Rightarrow> r\<lparr>currentTestItem := None\<rparr>)"
  using assms by (simp add: nonDarwin_line_def call_def split: option.splits)

lemma nonDarwin_line_skipped:
  assumes "exec startedMatch line = None" "exec failedMatch line = None"
    "exec skippedMatch line = Some m"
  shows "nonDarwin_line ctx line r =
     (case findIndex_in_target ctx (m ! 3 @ ''/'' @ m ! 4) (m ! 1) (testItems r) of
        Some i \<Rightarrow>
          r\<lparr>testItems := splice i (testItems r), currentTestItem := None,
            testRun := testRun r @ [Skipped (testItems r ! i)]\<rparr>
      | None \<Rightarrow> r\<lparr>currentTestItem := None\<rparr>)"
  using assms by (simp add: nonDarwin_line_def call_def split: option.splits)

lemma nonDarwin_line_started:
  assumes "exec startedMatch line = Some m"
  shows "nonDarwin_line ctx line r =
     (case findIndex (\<lambda>item. suffix (m ! 1 @ ''/'' @ m ! 2) (id_str item)) (testItems r) of
        Some i \<Rightarrow>
          r\<lparr>currentTestItem := Some (testItems r ! i),
            testRun := testRun r @ [Started (testItems r ! i)]\<rparr>
      | None \<Rightarrow> r)"
  using assms by (simp add: nonDarwin_line_def call_def split: option.splits)

lemma nonDarwin_line_other:
  assumes "exec startedMatch line = None" "exec failedMatch line = None"
    "exec skippedMatch line = None"
  shows "nonDarwin_line ctx line r = r"
  using assms by (simp add: nonDarwin_line_def)

lemma nonDarwin_passed_line_passed:
  assumes "exec passedMatch line = Some m"
  shows "nonDarwin_passed_line line r =
     (case findIndex (\<lambda>item. suffix (m ! 1 @ ''/'' @ m ! 2) (id_str item)) (testItems r) of
        Some i \<Rightarrow>
          r\<lparr>testItems := splice i (testItems r), currentTestItem := None,
            testRun := testRun r @ [Passed (testItems r ! i) (toNumber (m ! 3))]\<rparr>
      | None \<Rightarrow> r\<lparr>currentTestItem := None\<rparr>)"
  using assms by (simp add: nonDarwin_passed_line_def call_def split: option.splits)

lemma nonDarwin_passed_line_other:
  "exec passedMatch line = None \<Longrightarrow> nonDarwin_passed_line line r = r"
  by (simp add: nonDarwin_passed_line_def)

lemma darwin_line_started:
  assumes "exec darwin_startedMatch line = Some m"
  shows "darwin_line line r =
     (case findIndex (\<lambda>item. id_str item = m ! 1 @ ''/'' @ m ! 2) (testItems r) of
        Some i \<Rightarrow>
          r\<lparr>currentTestItem := Some (testItems r ! i),
            testRun := testRun r @ [Started (testItems r ! i)]\<rparr>
      | None \<Rightarrow> r, None)"
  using assms by (simp add: darwin_line_def call_def split: option.splits)

lemma darwin_line_passed:
  assumes "exec darwin_startedMatch line = None" "exec darwin_passedMatch line = Some m"
  shows "darwin_line line r =
     (case findIndex (\<lambda>item. id_str item = m ! 1 @ ''/'' @ m ! 2) (testItems r) of
        Some i \<Rightarrow>
          r\<lparr>testItems := splice i (testItems r), currentTestItem := None,
            testRun := testRun r @
              [Passed (testItems r ! i) (number_times (toNumber (m ! 3)) 1000)]\<rparr>
      | None \<Rightarrow> r\<lparr>currentTestItem := None\<rparr>, None)"
  using assms by (simp add: darwin_line_def call_def split: option.splits)

lemma darwin_line_failed:
  assumes "exec darwin_startedMatch line = None" "exec darwin_passedMatch line = None"
    "exec darwin_failedMatch line = Some m"
  shows "darwin_line line r =
     (case findIndex (\<lambda>item. id_str item = m ! 3 @ ''/'' @ m ! 4) (testItems r) of
        Some i \<Rightarrow>
          (case new_Position (map_option (\<lambda>n. n - 1) (parseInt (m ! 2))) 0 of
             Inl error \<Rightarrow> (r, Some error)
           | Inr position \<Rightarrow>
               (r\<lparr>testItems := splice i (testItems r), currentTestItem := None,
                  testRun := testRun r @
                    [Failed (testItems r ! i)
                       (TestMessage (m ! 5) (Some (Location (m ! 1) position)))]\<rparr>,
                None))
      | None \<Rightarrow> (r\<lparr>currentTestItem := None\<rparr>, None))"
  using assms by (simp add: darwin_line_def call_def split: option.splits sum.splits)

lemma darwin_line_skipped:
  assumes "exec darwin_startedMatch line = None" "exec darwin_passedMatch line = None"
    "exec darwin_failedMatch line = None" "exec darwin_skippedMatch line = Some m"
  shows "darwin_line line r =
     (case findIndex (\<lambda>item. id_str item = m ! 3 @ ''/'' @ m ! 4) (testItems r) of
        Some i \<Rightarrow>
          r\<lparr>testItems := splice i (testItems r), currentTestItem := None,
            testRun := testRun r @ [Skipped (testItems r ! i)]\<rparr>
      | None \<Rightarrow> r\<lparr>currentTestItem := None\<rparr>, None)"
  using assms by (simp add: darwin_line_def call_def split: option.splits)

lemma darwin_line_other:
  assumes "exec darwin_startedMatch line = None" "exec darwin_passedMatch line = None"
    "exec darwin_failedMatch line = None" "exec darwin_skippedMatch line = None"
  shows "darwin_line line r = (r, None)"
  using assms by (simp add: darwin_line_def)

section \<open>Durations\<close>

text \<open>
  C2. The line \<open>Test Case 'FooTests.testBar' passed (0.012 seconds)\<close> of the output of
  Linux removes the test from the test items and clears the current test item, but the
  call \<open>passed\<close> carries the number of seconds as printed, \<open>0.012\<close>. The parser for macOS
  multiplies by 1000 and passes \<open>12\<close> for the same duration.
\<close>

theorem passed_duration_is_seconds:
  "parseResultNonDarwin example_ctx passed_line example_runner =
     \<lparr>testItems = [item_FooTests, item_testBaz], testArgs = [], currentTestItem = None,
      testRun = [Passed item_testBar (Decimal 12 3)]\<rparr>
   \<and> parseResultDarwin darwin_passed_line darwin_runner =
     (\<lparr>testItems = [], testArgs = [], currentTestItem = None,
       testRun = [Passed darwin_item (Decimal 12 0)]\<rparr>, None)"
  by code_simp

section \<open>Failed before passed\<close>

text \<open>
  For a runner whose test items are distinct, the calls that one chunk of output adds
  to the test run are those of the first loop, none of them \<open>passed\<close>, followed by those of
  the second loop, all of them \<open>passed\<close>; and a test that the first loop reports as failed
  was among the test items, is not reported as passed by the second loop, and is no
  longer among the test items.
\<close>

lemma distinct_failed_never_passed:
  assumes "distinct (testItems r)"
  shows "\<exists>ev1 ev2.
     testRun (fold (nonDarwin_line ctx) (map trim (split_newline output)) r) = testRun r @ ev1
     \<and> testRun (parseResultNonDarwin ctx output r) = testRun r @ ev1 @ ev2
     \<and> (\<forall>x d. Passed x d \<notin> set ev1)
     \<and> list_all is_Passed ev2
     \<and> (\<forall>x m. Failed x m \<in> set ev1 \<longrightarrow>
           x \<in> set (testItems r)
           \<and> (\<forall>d. Passed x d \<notin> set ev2)
           \<and> x \<notin> set (testItems (parseResultNonDarwin ctx output r)))"
proof -
  let ?lines = "map trim (split_newline output)"
  let ?r1 = "fold (nonDarwin_line ctx) ?lines r"
  let ?r2 = "fold nonDarwin_passed_line ?lines ?r1"
  have r2: "parseResultNonDarwin ctx output r = ?r2"
    by (simp add: parseResultNonDarwin_def Let_def)
  have s1: "shrinks (\<lambda>c. \<not> is_Passed c) r ?r1"
    using nonDarwin_line_shrinks assms by (rule shrinks_fold)
  then obtain ev1 where ev1: "testRun ?r1 = testRun r @ ev1" "list_all (\<lambda>c. \<not> is_Passed c) ev1"
    "distinct (testItems ?r1)" "set (testItems ?r1) \<subseteq> set (testItems r)"
    "\<forall>c \<in> set ev1. \<forall>x. terminal_item c = Some x
        \<longrightarrow> x \<in> set (testItems r) \<and> x \<notin> set (testItems ?r1)"
    unfolding shrinks_def by blast
  have s2: "shrinks is_Passed ?r1 ?r2"
    using nonDarwin_passed_line_shrinks ev1(3) by (rule shrinks_fold)
  then obtain ev2 where ev2: "testRun ?r2 = testRun ?r1 @ ev2" "list_all is_Passed ev2"
    "distinct (testItems ?r2)" "set (testItems ?r2) \<subseteq> set (testItems ?r1)"
    "\<forall>c \<in> set ev2. \<forall>x. terminal_item c = Some x
        \<longrightarrow> x \<in> set (testItems ?r1) \<and> x \<notin> set (testItems ?r2)"
    unfolding shrinks_def by blast
  have a: "testRun ?r2 = testRun r @ ev1 @ ev2" using ev1(1) ev2(1) by simp
  have b: "Passed x d \<notin> set ev1" for x d
    using ev1(2) by (auto simp: list_all_iff is_Passed_def)
  have d: "x \<in> set (testItems r) \<and> (\<forall>d. Passed x d \<notin> set ev2) \<and> x \<notin> set (testItems ?r2)"
    if f: "Failed x m \<in> set ev1" for x m
  proof -
    have t: "terminal_item (Failed x m) = Some x" by (simp add: terminal_item_def)
    from ev1(5) f t have x: "x \<in> set (testItems r)" "x \<notin> set (testItems ?r1)" by blast+
    have "Passed x d \<notin> set ev2" for d
    proof
      assume "Passed x d \<in> set ev2"
      moreover have "terminal_item (Passed x d) = Some x" by (simp add: terminal_item_def)
      ultimately have "x \<in> set (testItems ?r1)" using ev2(5) by blast
      with x(2) show False by simp
    qed
    with x ev2(4) show ?thesis by blast
  qed
  show ?thesis
    unfolding r2 using ev1(1) a b ev2(2) d by blast
qed

text \<open>
  C3. The test items are a list, and \<open>createTestLists\<close> lists a test twice when the request
  includes a test case class and one of its methods: the first loop appends the method
  and accepts the class as a whole, and the second loop appends the children of the
  class, the method among them. A failure removes one entry only; a later line that says
  that the same class and function passed finds the other entry, and the test that was
  reported as failed is reported as passed.

  First for one target and the lines of the same test; then for two targets with a test
  \<open>Foo.bar\<close> each, where the test of \<open>TargetA\<close> fails and that of \<open>TargetB\<close> passes: the pass
  is reported for the test of \<open>TargetA\<close>, after its failure, and the test of \<open>TargetB\<close> stays
  among the test items.
\<close>

theorem listed_twice_failed_then_passed:
  "testItems overlapping_runner = [item_testBar, item_FooTests, item_testBaz, item_testBar]
   \<and> testRun (parseResultNonDarwin example_ctx
        (failed_line @ [CHR 0x0A] @ passed_line @ [CHR 0x0A]) overlapping_runner)
      = [Failed item_testBar
           (TestMessage ''expected true''
              (Some (Location ''/repo/Tests/FooTests.swift'' (Position (Some 10) 0)))),
         Passed item_testBar (Decimal 12 3)]
   \<and> testItems two_targets_overlapping_runner
      = [item_B_Foo, item_A_bar, item_A_Foo, item_A_bar, item_B_bar]
   \<and> testRun (parseResultNonDarwin two_targets_ctx
        (target_A_failed_line @ [CHR 0x0A] @ Foo_bar_passed_line @ [CHR 0x0A])
        two_targets_overlapping_runner)
      = [Failed item_A_bar
           (TestMessage ''expected true''
              (Some (Location ''/repo/Tests/TargetA/Foo.swift'' (Position (Some 7) 0)))),
         Passed item_A_bar (Decimal 5 1)]
   \<and> testItems (parseResultNonDarwin two_targets_ctx
        (target_A_failed_line @ [CHR 0x0A] @ Foo_bar_passed_line @ [CHR 0x0A])
        two_targets_overlapping_runner)
      = [item_B_Foo, item_A_Foo, item_B_bar]"
  by code_simp

section \<open>Telling two targets apart\<close>



section \<open>What a match says about the line\<close>

lemma pushes_Nil [simp]: "pushes [] cur = cur"
  by (cases cur) (simp_all add: pushes_def)

lemma pushes_Cons: "pushes (x # u) cur = pushes u (push x cur)"
  by (cases cur) (simp_all add: pushes_def push_def)

lemma pushes_Some [simp]: "pushes u (Some g) = Some (g @ u)"
  by (simp add: pushes_def)

lemma pushes_None [simp]: "pushes u None = None"
  by (simp add: pushes_def)

lemma rmatch_One:
  assumes "rmatch (One c # p) s d cur = Some res"
  shows "\<exists>x v. s = x # v \<and> cmatch c x \<and> rmatch p v d (pushes [x] cur) = Some res"
  using assms by (cases s) (auto simp: pushes_Cons split: if_splits)

lemma rmatch_lit:
  assumes "rmatch (lit w @ p) s d cur = Some res"
  shows "\<exists>v. s = w @ v \<and> rmatch p v d (pushes w cur) = Some res"
  using assms
proof (induction w arbitrary: s cur)
  case Nil
  then show ?case by (simp add: lit_def)
next
  case (Cons a w)
  from Cons.prems have "rmatch (One (Lit a) # lit w @ p) s d cur = Some res"
    by (simp add: lit_def)
  then obtain v where v: "s = a # v" "rmatch (lit w @ p) v d (push a cur) = Some res"
    by (cases s) (auto split: if_splits)
  from Cons.IH [OF v(2)] v(1) show ?case
    by (auto simp: pushes_Cons)
qed

lemma rmatch_lit_eq: "rmatch (lit w @ p) (w @ v) d cur = rmatch p v d (pushes w cur)"
  by (induction w arbitrary: cur) (simp_all add: lit_def pushes_Cons)

text \<open>
  A repetition that fails has tried every number of characters; one that succeeds has
  taken the largest number of characters with which the rest of the pattern matches.
\<close>

lemma rmatch_Star_None:
  assumes "rmatch (Star c # p) (u @ v) d cur = None" "list_all (cmatch c) u"
  shows "rmatch p v d (pushes u cur) = None"
  using assms
proof (induction u arbitrary: cur)
  case Nil
  then show ?case
    by (cases v) (auto split: if_splits option.splits)
next
  case (Cons x u)
  then have "rmatch (Star c # p) (u @ v) d (push x cur) = None"
    by (auto split: option.splits)
  with Cons show ?case
    by (simp add: pushes_Cons)
qed

lemma rmatch_Star:
  assumes "rmatch (Star c # p) s d cur = Some res"
  shows "\<exists>u v. s = u @ v \<and> list_all (cmatch c) u \<and> rmatch p v d (pushes u cur) = Some res
     \<and> (\<forall>u' v'. s = u' @ v' \<and> length u < length u' \<and> list_all (cmatch c) u'
           \<longrightarrow> rmatch p v' d (pushes u' cur) = None)"
  using assms
proof (induction s arbitrary: cur)
  case Nil
  then show ?case by simp
next
  case (Cons x s)
  show ?case
  proof (cases "cmatch c x \<and> rmatch (Star c # p) s d (push x cur) \<noteq> None")
    case True
    then have "rmatch (Star c # p) s d (push x cur) = Some res"
      using Cons.prems by auto
    from Cons.IH [OF this] obtain u v where uv: "s = u @ v" "list_all (cmatch c) u"
      "rmatch p v d (pushes u (push x cur)) = Some res"
      "\<forall>u' v'. s = u' @ v' \<and> length u < length u' \<and> list_all (cmatch c) u'
           \<longrightarrow> rmatch p v' d (pushes u' (push x cur)) = None"
      by blast
    have "rmatch p v' d (pushes u' cur) = None"
      if "x # s = u' @ v'" "length (x # u) < length u'" "list_all (cmatch c) u'" for u' v'
    proof -
      from that obtain u'' where u'': "u' = x # u''"
        by (cases u') auto
      with that uv(4) show ?thesis
        by (simp add: pushes_Cons)
    qed
    with uv(1-3) True show ?thesis
      by (intro exI [of _ "x # u"] exI [of _ v]) (simp add: pushes_Cons)
  next
    case False
    then have res: "rmatch p (x # s) d cur = Some res"
      using Cons.prems
      by (cases "rmatch (Star c # p) s d (push x cur)") (auto split: if_splits)
    have "rmatch p v' d (pushes u' cur) = None"
      if "x # s = u' @ v'" "length ([]::string) < length u'" "list_all (cmatch c) u'" for u' v'
    proof -
      from that obtain u'' where u'': "u' = x # u''" "s = u'' @ v'"
        by (cases u') auto
      with that have "cmatch c x" "list_all (cmatch c) u''" by auto
      with False have "rmatch (Star c # p) s d (push x cur) = None"
        by blast
      then have "rmatch (Star c # p) (u'' @ v') d (push x cur) = None"
        unfolding u''(2) .
      from rmatch_Star_None [OF this \<open>list_all (cmatch c) u''\<close>] show ?thesis
        by (simp add: u''(1) pushes_Cons)
    qed
    with res show ?thesis
      by (intro exI [of _ "[]"] exI [of _ "x # s"]) simp
  qed
qed

lemma rmatch_Plus:
  assumes "rmatch (Plus c # p) s d cur = Some res"
  shows "\<exists>u v. s = u @ v \<and> u \<noteq> [] \<and> list_all (cmatch c) u
     \<and> rmatch p v d (pushes u cur) = Some res"
proof -
  from assms obtain x s' where s: "s = x # s'" "cmatch c x"
    "rmatch (Star c # p) s' d (push x cur) = Some res"
    by (cases s) (auto split: if_splits)
  from rmatch_Star [OF s(3)] obtain u v where "s' = u @ v" "list_all (cmatch c) u"
    "rmatch p v d (pushes u (push x cur)) = Some res"
    by blast
  with s(1,2) show ?thesis
    by (intro exI [of _ "x # u"] exI [of _ v]) (simp add: pushes_Cons)
qed

text \<open>A trailing group \<open>(.*)\<close> always matches.\<close>

lemma rmatch_last_group: "rmatch [Star c, Close] s d cur \<noteq> None"
  by (induction s arbitrary: cur) (auto split: option.splits)

lemma not_terminator_colon_space: "list_all (cmatch Dot) '' : ''"
  by (simp add: isLineTerminator_def)

text \<open>
  The line of a failed test, taken apart: file, row, class, function and message, the
  message being free of \<open>" : "\<close> and running to the end of the line or to a line
  terminator in it.
\<close>

lemma failedMatch_groups:
  assumes "exec failedMatch line = Some m"
  shows "\<exists>g1 g2 sp ws g3 g4 g5 rest.
     line = g1 @ '':'' @ g2 @ '':'' @ [sp] @ ''error:'' @ ws @ g3 @ ''.'' @ g4 @ '' : '' @ g5 @ rest
     \<and> m = [take (length line - length rest) line, g1, g2, g3, g4, g5]
     \<and> g2 \<noteq> [] \<and> list_all isDigit g2
     \<and> list_all (\<lambda>c. \<not> isLineTerminator c) g5
     \<and> (rest = [] \<or> isLineTerminator (hd rest))
     \<and> (\<forall>a b. g5 \<noteq> a @ '' : '' @ b)"
proof -
  let ?P5 = "[Star Dot, Close]"
  let ?P4 = "Star Dot # Close # lit '' : '' @ Open # ?P5"
  let ?P3 = "Star Space # Open # Star Dot # Close # lit ''.'' @ Open # ?P4"
  let ?P2 = "One Space # lit ''error:'' @ ?P3"
  let ?P1 = "Plus Digit # Close # lit '':'' @ ?P2"
  have fm: "failedMatch = Open # Plus Dot # Close # lit '':'' @ Open # ?P1"
    by (simp add: failedMatch_def)
  from assms obtain groups rest where r: "rmatch failedMatch line [] None = Some (groups, rest)"
    and m: "m = take (length line - length rest) line # groups"
    by (auto simp: exec_def split: option.splits)
  from r have "rmatch (Plus Dot # Close # lit '':'' @ Open # ?P1) line [] (Some []) = Some (groups, rest)"
    by (simp add: fm)
  from rmatch_Plus [OF this] obtain g1 v1 where 1: "line = g1 @ v1"
    "rmatch (Close # lit '':'' @ Open # ?P1) v1 [] (pushes g1 (Some [])) = Some (groups, rest)"
    by blast
  from 1(2) have "rmatch (lit '':'' @ Open # ?P1) v1 [g1] None = Some (groups, rest)"
    by simp
  from rmatch_lit [OF this] obtain v2 where 2: "v1 = '':'' @ v2"
    "rmatch (Open # ?P1) v2 [g1] (pushes '':'' None) = Some (groups, rest)"
    by blast
  from 2(2) have "rmatch ?P1 v2 [g1] (Some []) = Some (groups, rest)"
    by simp
  from rmatch_Plus [OF this] obtain g2 v3 where 3: "v2 = g2 @ v3" "g2 \<noteq> []"
    "list_all (cmatch Digit) g2"
    "rmatch (Close # lit '':'' @ ?P2) v3 [g1] (pushes g2 (Some [])) = Some (groups, rest)"
    by blast
  from 3(4) have "rmatch (lit '':'' @ ?P2) v3 [g1, g2] None = Some (groups, rest)"
    by simp
  from rmatch_lit [OF this] obtain v4 where 4: "v3 = '':'' @ v4"
    "rmatch ?P2 v4 [g1, g2] (pushes '':'' None) = Some (groups, rest)"
    by blast
  from rmatch_One [OF 4(2)] obtain sp v5 where 5: "v4 = sp # v5"
    "rmatch (lit ''error:'' @ ?P3) v5 [g1, g2] (pushes [sp] (pushes '':'' None)) = Some (groups, rest)"
    by blast
  from rmatch_lit [OF 5(2)] obtain v6 where 6: "v5 = ''error:'' @ v6"
    "rmatch ?P3 v6 [g1, g2] (pushes ''error:'' (pushes [sp] (pushes '':'' None)))
       = Some (groups, rest)"
    by blast
  from rmatch_Star [OF 6(2)] obtain ws v7 where 7: "v6 = ws @ v7"
    "rmatch (Open # Star Dot # Close # lit ''.'' @ Open # ?P4) v7 [g1, g2]
       (pushes ws (pushes ''error:'' (pushes [sp] (pushes '':'' None)))) = Some (groups, rest)"
    by blast
  from 7(2) have "rmatch (Star Dot # Close # lit ''.'' @ Open # ?P4) v7 [g1, g2] (Some [])
      = Some (groups, rest)"
    by simp
  from rmatch_Star [OF this] obtain g3 v8 where 8: "v7 = g3 @ v8"
    "rmatch (Close # lit ''.'' @ Open # ?P4) v8 [g1, g2] (pushes g3 (Some [])) = Some (groups, rest)"
    by blast
  from 8(2) have "rmatch (lit ''.'' @ Open # ?P4) v8 [g1, g2, g3] None = Some (groups, rest)"
    by simp
  from rmatch_lit [OF this] obtain v9 where 9: "v8 = ''.'' @ v9"
    "rmatch (Open # ?P4) v9 [g1, g2, g3] (pushes ''.'' None) = Some (groups, rest)"
    by blast
  from 9(2) have "rmatch ?P4 v9 [g1, g2, g3] (Some []) = Some (groups, rest)"
    by simp
  from rmatch_Star [OF this] obtain g4 v10 where 10: "v9 = g4 @ v10" "list_all (cmatch Dot) g4"
    "rmatch (Close # lit '' : '' @ Open # ?P5) v10 [g1, g2, g3] (pushes g4 (Some []))
       = Some (groups, rest)"
    and max4: "\<forall>u' v'. v9 = u' @ v' \<and> length g4 < length u' \<and> list_all (cmatch Dot) u'
       \<longrightarrow> rmatch (Close # lit '' : '' @ Open # ?P5) v' [g1, g2, g3] (pushes u' (Some [])) = None"
    by blast
  from 10(3) have "rmatch (lit '' : '' @ Open # ?P5) v10 [g1, g2, g3, g4] None = Some (groups, rest)"
    by simp
  from rmatch_lit [OF this] obtain v11 where 11: "v10 = '' : '' @ v11"
    "rmatch (Open # ?P5) v11 [g1, g2, g3, g4] (pushes '' : '' None) = Some (groups, rest)"
    by blast
  from 11(2) have "rmatch ?P5 v11 [g1, g2, g3, g4] (Some []) = Some (groups, rest)"
    by simp
  from rmatch_Star [OF this] obtain g5 v12 where 12: "v11 = g5 @ v12" "list_all (cmatch Dot) g5"
    "rmatch [Close] v12 [g1, g2, g3, g4] (pushes g5 (Some [])) = Some (groups, rest)"
    and max5: "\<forall>u' v'. v11 = u' @ v' \<and> length g5 < length u' \<and> list_all (cmatch Dot) u'
       \<longrightarrow> rmatch [Close] v' [g1, g2, g3, g4] (pushes u' (Some [])) = None"
    by blast
  from 12(3) have g: "groups = [g1, g2, g3, g4, g5]" "rest = v12"
    by simp_all
  have line: "line = g1 @ '':'' @ g2 @ '':'' @ [sp] @ ''error:'' @ ws @ g3 @ ''.'' @ g4
      @ '' : '' @ g5 @ rest"
    by (simp add: 1(1) 2(1) 3(1) 4(1) 5(1) 6(1) 7(1) 8(1) 9(1) 10(1) 11(1) 12(1) g(2))
  have rest: "rest = [] \<or> isLineTerminator (hd rest)"
  proof (rule ccontr)
    assume "\<not> ?thesis"
    then obtain x w where xw: "v12 = x # w" "cmatch Dot x"
      unfolding g(2) by (cases v12) auto
    have "v11 = (g5 @ [x]) @ w" "length g5 < length (g5 @ [x])"
      "list_all (cmatch Dot) (g5 @ [x])"
      using 12(1,2) xw by simp_all
    with max5 have "rmatch [Close] w [g1, g2, g3, g4] (pushes (g5 @ [x]) (Some [])) = None"
      by blast
    then show False by simp
  qed
  have final: "g5 \<noteq> a @ '' : '' @ b" for a b
  proof
    assume ab: "g5 = a @ '' : '' @ b"
    let ?u = "g4 @ '' : '' @ a"
    have "v9 = ?u @ '' : '' @ b @ v12"
      by (simp add: 10(1) 11(1) 12(1) ab)
    moreover have "length g4 < length ?u" by simp
    moreover have "list_all (cmatch Dot) ?u"
      using 10(2) 12(2) not_terminator_colon_space unfolding ab by simp
    ultimately have "rmatch (Close # lit '' : '' @ Open # ?P5) ('' : '' @ b @ v12) [g1, g2, g3]
        (pushes ?u (Some [])) = None"
      using max4 by blast
    then have "rmatch (lit '' : '' @ Open # ?P5) ('' : '' @ b @ v12) [g1, g2, g3, ?u] None = None"
      by simp
    then have "rmatch ?P5 (b @ v12) [g1, g2, g3, ?u] (Some []) = None"
      unfolding rmatch_lit_eq by simp
    then show False
      using rmatch_last_group by blast
  qed
  have "list_all isDigit g2" using 3(3) by (simp add: list_all_iff)
  moreover have "list_all (\<lambda>c. \<not> isLineTerminator c) g5" using 12(2) by (simp add: list_all_iff)
  ultimately show ?thesis
    using line m g(1) 3(2) rest final by blast
qed

lemma parseInt_digits:
  assumes "g \<noteq> []" "list_all isDigit g"
  shows "parseInt g = Some (int (nat_of_digits g))"
proof -
  have d: "isDigit c \<Longrightarrow> \<not> isSpace c \<and> c \<noteq> CHR ''-'' \<and> c \<noteq> CHR ''+''" for c
    by (auto simp: isDigit_def isSpace_def)
  from assms have "isDigit (hd g)"
    by (cases g) auto
  with d have hd: "\<not> isSpace (hd g)" "hd g \<noteq> CHR ''-''" "hd g \<noteq> CHR ''+''"
    by blast+
  have 1: "dropWhile isSpace g = g"
    using assms(1) hd(1) by (cases g) auto
  have 2: "takeWhile isDigit g = g"
    using assms(2) by (simp add: list_all_iff)
  show ?thesis
    by (simp add: parseInt_def Let_def 1 2 hd assms(1))
qed

text \<open>
  The line number of a failure in the output of Linux is never negative: the constructor
  of its position does not throw.
\<close>

lemma nonDarwin_position:
  assumes "exec failedMatch line = Some m"
  shows "new_Position (parseInt (m ! 2)) 0 = Inr (Position (parseInt (m ! 2)) 0)"
proof -
  from failedMatch_groups [OF assms] obtain w g1 g2 g3 g4 g5
    where m: "m = [w, g1, g2, g3, g4, g5]" and g2: "g2 \<noteq> []" "list_all isDigit g2"
    by blast
  from m have "m ! 2 = g2"
    by simp
  with parseInt_digits [OF g2] show ?thesis
    by (simp add: new_Position_def)
qed

section \<open>The location of a failure\<close>

text \<open>
  C9. A line of the output of Linux that is read as a failed test, with a test whose id
  ends in the class and function of the line among the test items: one such test is
  reported as failed and removed, and the current test item is cleared. The message is
  the last group, which is the text after the last \<open>" : "\<close> of the line up to its end (or
  up to a carriage return in it). The position is column 0 of the row whose number is
  the value of the digits of the second group, as printed, with nothing subtracted.
\<close>

theorem failed_location:
  assumes "exec startedMatch line = None" and "exec failedMatch line = Some m"
    and "\<exists>item \<in> set (testItems r). suffix (m ! 3 @ ''/'' @ m ! 4) (id_str item)"
  shows "\<exists>i < length (testItems r).
       suffix (m ! 3 @ ''/'' @ m ! 4) (id_str (testItems r ! i))
     \<and> nonDarwin_line ctx line r =
         r\<lparr>testItems := splice i (testItems r), currentTestItem := None,
           testRun := testRun r @
             [Failed (testItems r ! i)
                (TestMessage (m ! 5)
                   (Some (Location (m ! 1) (Position (Some (int (nat_of_digits (m ! 2)))) 0))))]\<rparr>
     \<and> m ! 2 \<noteq> [] \<and> list_all isDigit (m ! 2)
     \<and> (\<exists>tail. line = m ! 1 @ '':'' @ m ! 2 @ '':'' @ tail)
     \<and> (\<exists>before rest. line = before @ '' : '' @ m ! 5 @ rest
            \<and> (rest = [] \<or> isLineTerminator (hd rest)))
     \<and> (\<forall>a b. m ! 5 \<noteq> a @ '' : '' @ b)"
proof -
  from failedMatch_groups [OF assms(2)] obtain g1 g2 sp ws g3 g4 g5 rest where
    line: "line = g1 @ '':'' @ g2 @ '':'' @ [sp] @ ''error:'' @ ws @ g3 @ ''.'' @ g4
      @ '' : '' @ g5 @ rest"
    and m: "m = [take (length line - length rest) line, g1, g2, g3, g4, g5]"
    and g2: "g2 \<noteq> []" "list_all isDigit g2"
    and rest: "rest = [] \<or> isLineTerminator (hd rest)"
    and final: "\<forall>a b. g5 \<noteq> a @ '' : '' @ b"
    by blast
  have m2: "m ! 1 = g1" "m ! 2 = g2" "m ! 5 = g5"
    by (simp_all add: m)
  have row: "parseInt (m ! 2) = Some (int (nat_of_digits (m ! 2)))"
    using g2 by (simp add: m2 parseInt_digits)
  from assms(3) have "findIndex_in_target ctx (m ! 3 @ ''/'' @ m ! 4) (m ! 1) (testItems r) \<noteq> None"
    by (simp add: findIndex_in_target_None)
  then obtain i where i: "findIndex_in_target ctx (m ! 3 @ ''/'' @ m ! 4) (m ! 1) (testItems r) = Some i"
    by blast
  from findIndex_in_target_Some [OF i]
  have i': "i < length (testItems r)" "suffix (m ! 3 @ ''/'' @ m ! 4) (id_str (testItems r ! i))"
    by simp_all
  have step: "nonDarwin_line ctx line r =
         r\<lparr>testItems := splice i (testItems r), currentTestItem := None,
           testRun := testRun r @
             [Failed (testItems r ! i)
                (TestMessage (m ! 5)
                   (Some (Location (m ! 1) (Position (Some (int (nat_of_digits (m ! 2)))) 0))))]\<rparr>"
    by (simp only: nonDarwin_line_failed [OF assms(1,2)] i row option.case)
  have a: "\<exists>tail. line = m ! 1 @ '':'' @ m ! 2 @ '':'' @ tail"
    unfolding m2 using line by blast
  have b: "\<exists>before rest. line = before @ '' : '' @ m ! 5 @ rest
            \<and> (rest = [] \<or> isLineTerminator (hd rest))"
  proof (intro exI conjI)
    show "line = (g1 @ '':'' @ g2 @ '':'' @ [sp] @ ''error:'' @ ws @ g3 @ ''.'' @ g4)
        @ '' : '' @ m ! 5 @ rest"
      unfolding m2 using line by simp
    show "rest = [] \<or> isLineTerminator (hd rest)" by (rule rest)
  qed
  show ?thesis
    using i' step g2 a b final unfolding m2 by blast
qed

theorem failed_location_witness:
  "exec startedMatch failed_line = None
   \<and> exec failedMatch failed_line
       = Some [failed_line, ''/repo/Tests/FooTests.swift'', ''10'', ''FooTests'', ''testBar'',
               ''expected true'']
   \<and> suffix ''FooTests/testBar'' (id_str item_testBar)
   \<and> item_testBar \<in> set (testItems example_runner)
   \<and> nonDarwin_line example_ctx failed_line example_runner =
       \<lparr>testItems = [item_FooTests, item_testBaz], testArgs = [], currentTestItem = None,
        testRun = [Failed item_testBar
           (TestMessage ''expected true''
              (Some (Location ''/repo/Tests/FooTests.swift'' (Position (Some 10) 0))))]\<rparr>"
proof -
  let ?m = "[failed_line, ''/repo/Tests/FooTests.swift'', ''10'', ''FooTests'', ''testBar'',
               ''expected true'']"
  have 1: "exec startedMatch failed_line = None" by code_simp
  have 2: "exec failedMatch failed_line = Some ?m" by code_simp
  have 3: "suffix ''FooTests/testBar'' (id_str item_testBar)" by code_simp
  have 4: "item_testBar \<in> set (testItems example_runner)" by code_simp
  have 5: "nonDarwin_line example_ctx failed_line example_runner =
       \<lparr>testItems = [item_FooTests, item_testBaz], testArgs = [], currentTestItem = None,
        testRun = [Failed item_testBar
           (TestMessage ''expected true''
              (Some (Location ''/repo/Tests/FooTests.swift'' (Position (Some 10) 0))))]\<rparr>"
    by code_simp
  have "\<exists>item \<in> set (testItems example_runner). suffix (?m ! 3 @ ''/'' @ ?m ! 4) (id_str item)"
    using 3 4 by auto
  from failed_location [OF 1 2 this, of example_ctx] 1 2 3 4 5 show ?thesis
    by simp
qed

section \<open>Clearing the current test item\<close>

text \<open>
  The parser for macOS throws at a line exactly when the line is read as a failed test, a
  test item is found for it and its line number is less than one; the runner is then as
  it was before the line.
\<close>

lemma darwin_line_throws:
  "(snd (darwin_line line r) \<noteq> None) =
     (exec darwin_startedMatch line = None \<and> exec darwin_passedMatch line = None
      \<and> (\<exists>m n. exec darwin_failedMatch line = Some m
            \<and> findIndex (\<lambda>item. id_str item = m ! 3 @ ''/'' @ m ! 4) (testItems r) \<noteq> None
            \<and> parseInt (m ! 2) = Some n \<and> n < 1))"
  "snd (darwin_line line r) \<noteq> None \<Longrightarrow> fst (darwin_line line r) = r"
proof -
  have "(snd (darwin_line line r) \<noteq> None) =
     (exec darwin_startedMatch line = None \<and> exec darwin_passedMatch line = None
      \<and> (\<exists>m n. exec darwin_failedMatch line = Some m
            \<and> findIndex (\<lambda>item. id_str item = m ! 3 @ ''/'' @ m ! 4) (testItems r) \<noteq> None
            \<and> parseInt (m ! 2) = Some n \<and> n < 1))
     \<and> (snd (darwin_line line r) \<noteq> None \<longrightarrow> fst (darwin_line line r) = r)"
  proof (cases "exec darwin_startedMatch line")
    case (Some m)
    show ?thesis
      by (simp add: darwin_line_started [OF Some] Some)
  next
    case s: None
    show ?thesis
    proof (cases "exec darwin_passedMatch line")
      case (Some m)
      show ?thesis
        by (simp add: darwin_line_passed [OF s Some] Some)
    next
      case p: None
      show ?thesis
      proof (cases "exec darwin_failedMatch line")
        case (Some m)
        show ?thesis
          by (auto simp: darwin_line_failed [OF s p Some] Some s p new_Position_def
              split: option.splits sum.splits if_splits)
      next
        case f: None
        show ?thesis
        proof (cases "exec darwin_skippedMatch line")
          case (Some m)
          show ?thesis
            by (simp add: darwin_line_skipped [OF s p f Some] f)
        next
          case None
          show ?thesis
            by (simp add: darwin_line_other [OF s p f None] f)
        qed
      qed
    qed
  qed
  then show "(snd (darwin_line line r) \<noteq> None) =
     (exec darwin_startedMatch line = None \<and> exec darwin_passedMatch line = None
      \<and> (\<exists>m n. exec darwin_failedMatch line = Some m
            \<and> findIndex (\<lambda>item. id_str item = m ! 3 @ ''/'' @ m ! 4) (testItems r) \<noteq> None
            \<and> parseInt (m ! 2) = Some n \<and> n < 1))"
    and "snd (darwin_line line r) \<noteq> None \<Longrightarrow> fst (darwin_line line r) = r"
    by blast+
qed

text \<open>
  In either parser, a line that is read as a passed, failed or skipped test, and at which
  the parser does not throw, clears the current test item, whether or not a test item is
  found for it; when none is found, that is all the line does. A line that is read as a
  started test for which no test item is found changes nothing. (The patterns are tried in
  order: a line is read by the first pattern that matches it; the second loop of the
  parser for Linux reads the passed tests.)
\<close>

lemma terminal_line_clears:
  "(exec darwin_startedMatch line = None
      \<and> (exec darwin_passedMatch line \<noteq> None \<or> exec darwin_failedMatch line \<noteq> None
           \<or> exec darwin_skippedMatch line \<noteq> None)
      \<and> snd (darwin_line line r) = None
      \<longrightarrow> currentTestItem (fst (darwin_line line r)) = None)
   \<and> (exec darwin_startedMatch line = None \<and> exec darwin_passedMatch line = Some m
      \<and> (\<forall>item \<in> set (testItems r). id_str item \<noteq> m ! 1 @ ''/'' @ m ! 2)
      \<longrightarrow> darwin_line line r = (r\<lparr>currentTestItem := None\<rparr>, None))
   \<and> (exec darwin_startedMatch line = None \<and> exec darwin_passedMatch line = None
      \<and> exec darwin_failedMatch line = Some m
      \<and> (\<forall>item \<in> set (testItems r). id_str item \<noteq> m ! 3 @ ''/'' @ m ! 4)
      \<longrightarrow> darwin_line line r = (r\<lparr>currentTestItem := None\<rparr>, None))
   \<and> (exec darwin_startedMatch line = None \<and> exec darwin_passedMatch line = None
      \<and> exec darwin_failedMatch line = None \<and> exec darwin_skippedMatch line = Some m
      \<and> (\<forall>item \<in> set (testItems r). id_str item \<noteq> m ! 3 @ ''/'' @ m ! 4)
      \<longrightarrow> darwin_line line r = (r\<lparr>currentTestItem := None\<rparr>, None))
   \<and> (exec darwin_startedMatch line = Some m
      \<and> (\<forall>item \<in> set (testItems r). id_str item \<noteq> m ! 1 @ ''/'' @ m ! 2)
      \<longrightarrow> darwin_line line r = (r, None))
   \<and> (exec startedMatch line = None
      \<and> (exec failedMatch line \<noteq> None \<or> exec skippedMatch line \<noteq> None)
      \<longrightarrow> currentTestItem (nonDarwin_line ctx line r) = None)
   \<and> (exec passedMatch line \<noteq> None
      \<longrightarrow> currentTestItem (nonDarwin_passed_line line r) = None)
   \<and> (exec startedMatch line = None \<and> exec failedMatch line = Some m
      \<and> (\<forall>item \<in> set (testItems r). \<not> suffix (m ! 3 @ ''/'' @ m ! 4) (id_str item))
      \<longrightarrow> nonDarwin_line ctx line r = r\<lparr>currentTestItem := None\<rparr>)
   \<and> (exec startedMatch line = None \<and> exec failedMatch line = None
      \<and> exec skippedMatch line = Some m
      \<and> (\<forall>item \<in> set (testItems r). \<not> suffix (m ! 3 @ ''/'' @ m ! 4) (id_str item))
      \<longrightarrow> nonDarwin_line ctx line r = r\<lparr>currentTestItem := None\<rparr>)
   \<and> (exec passedMatch line = Some m
      \<and> (\<forall>item \<in> set (testItems r). \<not> suffix (m ! 1 @ ''/'' @ m ! 2) (id_str item))
      \<longrightarrow> nonDarwin_passed_line line r = r\<lparr>currentTestItem := None\<rparr>)
   \<and> (exec startedMatch line = Some m
      \<and> (\<forall>item \<in> set (testItems r). \<not> suffix (m ! 1 @ ''/'' @ m ! 2) (id_str item))
      \<longrightarrow> nonDarwin_line ctx line r = r)"
proof -
  have none: "(\<forall>item \<in> set xs. \<not> P item) \<Longrightarrow> findIndex P xs = None" for P and xs :: "TestItem list"
    by (simp add: findIndex_None)
  have none': "(\<forall>item \<in> set xs. \<not> suffix n (id_str item))
      \<Longrightarrow> findIndex_in_target ctx n f xs = None" for n f xs
    by (simp add: findIndex_in_target_None)
  have d1: "exec darwin_startedMatch line = None
      \<and> (exec darwin_passedMatch line \<noteq> None \<or> exec darwin_failedMatch line \<noteq> None
           \<or> exec darwin_skippedMatch line \<noteq> None)
      \<and> snd (darwin_line line r) = None
      \<longrightarrow> currentTestItem (fst (darwin_line line r)) = None"
  proof (intro impI, elim conjE)
    assume s: "exec darwin_startedMatch line = None"
      and t: "exec darwin_passedMatch line \<noteq> None \<or> exec darwin_failedMatch line \<noteq> None
           \<or> exec darwin_skippedMatch line \<noteq> None"
      and n: "snd (darwin_line line r) = None"
    show "currentTestItem (fst (darwin_line line r)) = None"
    proof (cases "exec darwin_passedMatch line")
      case (Some m)
      show ?thesis
        by (simp add: darwin_line_passed [OF s Some] split: option.splits)
    next
      case p: None
      show ?thesis
      proof (cases "exec darwin_failedMatch line")
        case (Some m)
        show ?thesis
          using n by (simp add: darwin_line_failed [OF s p Some] split: option.splits sum.splits)
      next
        case f: None
        with p t obtain m where k: "exec darwin_skippedMatch line = Some m"
          by auto
        show ?thesis
          by (simp add: darwin_line_skipped [OF s p f k] split: option.splits)
      qed
    qed
  qed
  have d2: "exec darwin_startedMatch line = None \<and> exec darwin_passedMatch line = Some m
      \<and> (\<forall>item \<in> set (testItems r). id_str item \<noteq> m ! 1 @ ''/'' @ m ! 2)
      \<longrightarrow> darwin_line line r = (r\<lparr>currentTestItem := None\<rparr>, None)"
    using none [of "testItems r" "\<lambda>item. id_str item = m ! 1 @ ''/'' @ m ! 2"]
    by (auto simp: darwin_line_passed)
  have d3: "exec darwin_startedMatch line = None \<and> exec darwin_passedMatch line = None
      \<and> exec darwin_failedMatch line = Some m
      \<and> (\<forall>item \<in> set (testItems r). id_str item \<noteq> m ! 3 @ ''/'' @ m ! 4)
      \<longrightarrow> darwin_line line r = (r\<lparr>currentTestItem := None\<rparr>, None)"
    using none [of "testItems r" "\<lambda>item. id_str item = m ! 3 @ ''/'' @ m ! 4"]
    by (auto simp: darwin_line_failed)
  have d4: "exec darwin_startedMatch line = None \<and> exec darwin_passedMatch line = None
      \<and> exec darwin_failedMatch line = None \<and> exec darwin_skippedMatch line = Some m
      \<and> (\<forall>item \<in> set (testItems r). id_str item \<noteq> m ! 3 @ ''/'' @ m ! 4)
      \<longrightarrow> darwin_line line r = (r\<lparr>currentTestItem := None\<rparr>, None)"
    using none [of "testItems r" "\<lambda>item. id_str item = m ! 3 @ ''/'' @ m ! 4"]
    by (auto simp: darwin_line_skipped)
  have d5: "exec darwin_startedMatch line = Some m
      \<and> (\<forall>item \<in> set (testItems r). id_str item \<noteq> m ! 1 @ ''/'' @ m ! 2)
      \<longrightarrow> darwin_line line r = (r, None)"
    using none [of "testItems r" "\<lambda>item. id_str item = m ! 1 @ ''/'' @ m ! 2"]
    by (auto simp: darwin_line_started)
  have n1: "exec startedMatch line = None
      \<and> (exec failedMatch line \<noteq> None \<or> exec skippedMatch line \<noteq> None)
      \<longrightarrow> currentTestItem (nonDarwin_line ctx line r) = None"
  proof (intro impI, elim conjE)
    assume s: "exec startedMatch line = None"
      and t: "exec failedMatch line \<noteq> None \<or> exec skippedMatch line \<noteq> None"
    show "currentTestItem (nonDarwin_line ctx line r) = None"
    proof (cases "exec failedMatch line")
      case (Some m)
      show ?thesis
        by (simp add: nonDarwin_line_failed [OF s Some] split: option.splits)
    next
      case f: None
      with t obtain m where k: "exec skippedMatch line = Some m"
        by auto
      show ?thesis
        by (simp add: nonDarwin_line_skipped [OF s f k] split: option.splits)
    qed
  qed
  have n2: "exec passedMatch line \<noteq> None
      \<longrightarrow> currentTestItem (nonDarwin_passed_line line r) = None"
  proof
    assume "exec passedMatch line \<noteq> None"
    then obtain m where k: "exec passedMatch line = Some m" by auto
    show "currentTestItem (nonDarwin_passed_line line r) = None"
      by (simp add: nonDarwin_passed_line_passed [OF k] split: option.splits)
  qed
  have n3: "exec startedMatch line = None \<and> exec failedMatch line = Some m
      \<and> (\<forall>item \<in> set (testItems r). \<not> suffix (m ! 3 @ ''/'' @ m ! 4) (id_str item))
      \<longrightarrow> nonDarwin_line ctx line r = r\<lparr>currentTestItem := None\<rparr>"
    using none' [of "testItems r" "m ! 3 @ ''/'' @ m ! 4" "m ! 1"]
    by (auto simp: nonDarwin_line_failed)
  have n4: "exec startedMatch line = None \<and> exec failedMatch line = None
      \<and> exec skippedMatch line = Some m
      \<and> (\<forall>item \<in> set (testItems r). \<not> suffix (m ! 3 @ ''/'' @ m ! 4) (id_str item))
      \<longrightarrow> nonDarwin_line ctx line r = r\<lparr>currentTestItem := None\<rparr>"
    using none' [of "testItems r" "m ! 3 @ ''/'' @ m ! 4" "m ! 1"]
    by (auto simp: nonDarwin_line_skipped)
  have n5: "exec passedMatch line = Some m
      \<and> (\<forall>item \<in> set (testItems r). \<not> suffix (m ! 1 @ ''/'' @ m ! 2) (id_str item))
      \<longrightarrow> nonDarwin_passed_line line r = r\<lparr>currentTestItem := None\<rparr>"
    using none [of "testItems r" "\<lambda>item. suffix (m ! 1 @ ''/'' @ m ! 2) (id_str item)"]
    by (auto simp: nonDarwin_passed_line_passed)
  have n6: "exec startedMatch line = Some m
      \<and> (\<forall>item \<in> set (testItems r). \<not> suffix (m ! 1 @ ''/'' @ m ! 2) (id_str item))
      \<longrightarrow> nonDarwin_line ctx line r = r"
    using none [of "testItems r" "\<lambda>item. suffix (m ! 1 @ ''/'' @ m ! 2) (id_str item)"]
    by (auto simp: nonDarwin_line_started)
  from d1 d2 d3 d4 d5 n1 n2 n3 n4 n5 n6 show ?thesis
    by (intro conjI)
qed

text \<open>
  C10. XCTest reports a failure without a source location as a line that starts with
  \<open><unknown>:0: error:\<close>. The parser for macOS subtracts one from the line number, and the
  constructor of the position throws for the line \<open>-1\<close>, before the failure is reported
  and before the current test item is cleared: the test in progress stays the current
  test item and stays among the test items, nothing is reported, and the lines after it
  are not read, not even a line of a passed test, which clears the current test item
  whatever test it names. The parser for Linux, which subtracts nothing, reports the same
  failure at row 0 and clears the current test item.
\<close>

theorem unlocated_failure_throws:
  "currentTestItem darwin_runner = Some darwin_item
   \<and> parseResultDarwin darwin_unlocated_line darwin_runner
      = (darwin_runner, Some (illegalArgument ''line must be non-negative''))
   \<and> parseResultDarwin (darwin_unlocated_line @ [CHR 0x0A] @ darwin_unknown_passed_line)
        darwin_runner
      = (darwin_runner, Some (illegalArgument ''line must be non-negative''))
   \<and> parseResultDarwin darwin_unknown_passed_line darwin_runner
      = (darwin_runner\<lparr>currentTestItem := None\<rparr>, None)
   \<and> parseResultNonDarwin example_ctx unlocated_line
        (example_runner\<lparr>currentTestItem := Some item_testBar\<rparr>)
      = \<lparr>testItems = [item_FooTests, item_testBaz], testArgs = [], currentTestItem = None,
         testRun = [Failed item_testBar
            (TestMessage ''threw error''
               (Some (Location ''<unknown>'' (Position (Some 0) 0))))]\<rparr>"
  by code_simp

section \<open>The end of a run\<close>


lemma ends_update [simp]:
  "ends (r\<lparr>testItems := xs\<rparr>) = ends r" "ends (r\<lparr>currentTestItem := cur\<rparr>) = ends r"
  by (simp_all add: ends_def)




lemma ends_append [simp]: "ends (r\<lparr>testRun := testRun r @ [c]\<rparr>) = ends (call c r)"
  by (simp add: call_def)







text \<open>What the sessions throw is what the environment throws, or \<open>undefined\<close>.\<close>

lemma runSession_throws:
  "snd (runSession env r) = Some error \<Longrightarrow> execFileStreamOutput env = Some error"
  by (simp add: runSession_def Let_def split: if_splits)

lemma debugSession_throws:
  "snd (debugSession env r) = Some error
   \<Longrightarrow> startDebugging env = Throws error \<or> error = Undefined"
  by (auto simp: debugSession_def Let_def split: if_splits outcome.splits option.splits)








section \<open>An error that is reported\<close>




end
